theory Spec2Isabelle
  imports Main "HOL-Library.Word"
begin

unbundle bit_operations_syntax

section \<open>BurnStore: the notes table and its stored procedures\<close>

text \<open>
  A table is the list of its rows. \<open>SELECT ... WHERE\<close> is \<open>filter\<close>, \<open>UPDATE\<close> is
  \<open>map\<close>, and the constraints of the schema (\<open>PRIMARY KEY\<close>, \<open>UNIQUE\<close>) are
  predicates on the list. \<open>NOW()\<close> is constant during one call and is passed in.
  A stored procedure takes the table and returns its result with the table it leaves.
\<close>

type_synonym uuid = "128 word"
type_synonym timestamptz = int

text \<open>The columns of \<open>notes\<close> (schema.sql and the passphrase-validation migration).\<close>

record note_row =
  n_id :: uuid
  n_ciphertext :: string
  n_iv_b64u :: string
  n_created_at :: timestamptz
  n_expires_at :: timestamptz
  n_views_left :: int
  n_pass_salt_b64u :: "string option"
  n_kdf_iters :: "int option"
  n_passphrase_hash :: "string option"
  n_validation_salt_b64u :: "string option"

text \<open>\<open>id UUID PRIMARY KEY\<close>.\<close>

definition notes_pkey :: "note_row list \<Rightarrow> bool" where
  "notes_pkey notes = distinct (map n_id notes)"

text \<open>
  \<open>burn_and_fetch_note\<close> (schema.sql): the CTE \<open>tgt\<close> selects the live rows with the
  target id; \<open>UPDATE notes n SET views_left = tgt.views_left - 1 FROM tgt WHERE n.id = tgt.id\<close>
  rewrites every row that joins with \<open>tgt\<close>; \<open>RETURNING\<close> yields the updated rows.
\<close>

definition burn_and_fetch_note ::
  "timestamptz \<Rightarrow> uuid \<Rightarrow> note_row list \<Rightarrow> (string \<times> string) list \<times> note_row list" where
  "burn_and_fetch_note now target_id notes =
     (let tgt = filter (\<lambda>r. n_id r = target_id \<and> now \<le> n_expires_at r \<and> 0 < n_views_left r) notes;
          upd = (\<lambda>n. case find (\<lambda>t. n_id n = n_id t) tgt of
                         Some t \<Rightarrow> n\<lparr>n_views_left := n_views_left t - 1\<rparr>
                       | None \<Rightarrow> n);
          notes' = map upd notes;
          returning = filter (\<lambda>n. find (\<lambda>t. n_id n = n_id t) tgt \<noteq> None) notes'
      in (map (\<lambda>n. (n_ciphertext n, n_iv_b64u n)) returning, notes'))"

text \<open>
  The handler of \<open>POST /api/notes/[id]/fetch\<close> after the call of the procedure: a
  database error is 500, no row is 404 (the note is gone), otherwise the first row is
  returned as \<open>{ciphertext, iv}\<close>.
\<close>

datatype 'a rpc_result = RpcError | RpcData 'a

datatype fetch_response = Fetch_500 | Fetch_404 | Fetch_200 string string

definition fetch_response_of :: "(string \<times> string) list rpc_result \<Rightarrow> fetch_response" where
  "fetch_response_of r =
     (case r of
        RpcError \<Rightarrow> Fetch_500
      | RpcData [] \<Rightarrow> Fetch_404
      | RpcData (row # _) \<Rightarrow> Fetch_200 (fst row) (snd row))"

text \<open>
  \<open>validate_note_passphrase\<close> (passphrase-validation migration). \<open>SELECT ... INTO\<close>
  keeps the first selected row, or NULL when there is none. Both text values may be
  NULL (\<open>None\<close>); \<open>=\<close> on a NULL is NULL, and the function then returns NULL.
\<close>

definition sql_eq :: "string option \<Rightarrow> string option \<Rightarrow> bool option" where
  "sql_eq a b = (case (a, b) of (Some x, Some y) \<Rightarrow> Some (x = y) | _ \<Rightarrow> None)"

definition validate_note_passphrase ::
  "timestamptz \<Rightarrow> uuid \<Rightarrow> string option \<Rightarrow> note_row list \<Rightarrow> bool option \<times> note_row list" where
  "validate_note_passphrase now target_id provided_hash notes =
     (let stored_hash =
            (case filter (\<lambda>r. n_id r = target_id \<and> now \<le> n_expires_at r \<and> 0 < n_views_left r
                               \<and> n_passphrase_hash r \<noteq> None) notes of
               [] \<Rightarrow> None
             | r # _ \<Rightarrow> n_passphrase_hash r)
      in if stored_hash = None then (Some False, notes)
         else (sql_eq stored_hash provided_hash, notes))"

text \<open>
  The handler of \<open>POST /api/notes/[id]/validate-passphrase\<close> answers
  \<open>{valid: data === true}\<close>.
\<close>

definition validate_response_valid :: "bool option \<Rightarrow> bool" where
  "validate_response_valid data = (data = Some True)"

text \<open>A sample table, on which the theorems below are exercised.\<close>

definition sample_note ::
  "uuid \<Rightarrow> string \<Rightarrow> string \<Rightarrow> timestamptz \<Rightarrow> int \<Rightarrow> string option \<Rightarrow> note_row" where
  "sample_note i c v e k h =
     \<lparr>n_id = i, n_ciphertext = c, n_iv_b64u = v, n_created_at = 0, n_expires_at = e,
      n_views_left = k, n_pass_salt_b64u = h, n_kdf_iters = map_option (\<lambda>_. 210000) h,
      n_passphrase_hash = h, n_validation_salt_b64u = h\<rparr>"

definition notes_example :: "note_row list" where
  "notes_example =
     [sample_note 1 ''c1'' ''i1'' 200 1 None, sample_note 2 ''c2'' ''i2'' 200 0 (Some ''h2''),
      sample_note 3 ''c3'' ''i3'' 50 2 None, sample_note 4 ''c4'' ''i4'' 200 3 (Some ''h4'')]"

section \<open>BurnStore: files and download tokens\<close>

text \<open>The columns of \<open>files\<close> (schema.sql and the passphrase-validation migration).\<close>

record file_row =
  f_id :: uuid
  f_file_name :: string
  f_size_bytes :: int
  f_chunk_bytes :: int
  f_total_chunks :: int
  f_iv_base_b64u :: string
  f_storage_path :: string
  f_created_at :: timestamptz
  f_expires_at :: timestamptz
  f_pass_salt_b64u :: "string option"
  f_kdf_iters :: "int option"
  f_encrypted_filename :: "string option"
  f_filename_iv :: "string option"
  f_passphrase_hash :: "string option"
  f_validation_salt_b64u :: "string option"

text \<open>The columns of \<open>download_tokens\<close> (download-tokens migration).\<close>

record download_token_row =
  dt_id :: uuid
  dt_file_id :: uuid
  dt_token :: string
  dt_created_at :: timestamptz
  dt_expires_at :: timestamptz
  dt_used :: bool
  dt_is_multi_use :: bool

text \<open>\<open>files.id\<close> and \<open>download_tokens.id\<close> are primary keys; \<open>download_tokens.token\<close> is \<open>UNIQUE\<close>.\<close>

definition files_pkey :: "file_row list \<Rightarrow> bool" where
  "files_pkey files = distinct (map f_id files)"

definition download_tokens_keys :: "download_token_row list \<Rightarrow> bool" where
  "download_tokens_keys download_tokens =
     (distinct (map dt_id download_tokens) \<and> distinct (map dt_token download_tokens))"

text \<open>
  \<open>consume_download_token\<close> (download-tokens migration). \<open>SELECT * INTO token_record\<close>
  keeps the first unused, unexpired row with the token; \<open>NOT FOUND\<close> returns no row. A
  multi-use token raises, which rolls the call back. Otherwise the row with the record's
  id is marked used, and then the file is returned if it has not expired. A NULL
  argument selects no row, as a token that no row holds does.
\<close>

datatype sql_error = RaiseException string

definition consume_download_token ::
  "timestamptz \<Rightarrow> string \<Rightarrow> file_row list \<Rightarrow> download_token_row list \<Rightarrow>
   sql_error + ((uuid \<times> file_row) list \<times> download_token_row list)" where
  "consume_download_token now target_token files download_tokens =
     (case filter (\<lambda>dt. dt_token dt = target_token \<and> dt_used dt = False \<and> now \<le> dt_expires_at dt)
             download_tokens of
        [] \<Rightarrow> Inr ([], download_tokens)
      | token_record # _ \<Rightarrow>
          if dt_is_multi_use token_record
          then Inl (RaiseException ''This token is for a chunked download and cannot be consumed here. Use the chunk download endpoint instead.'')
          else Inr (map (\<lambda>f. (f_id f, f))
                      (filter (\<lambda>f. f_id f = dt_file_id token_record \<and> now \<le> f_expires_at f) files),
                    map (\<lambda>dt. if dt_id dt = dt_id token_record then dt\<lparr>dt_used := True\<rparr> else dt)
                      download_tokens))"

text \<open>
  \<open>validate_download_token\<close> (download-tokens migration): \<open>EXISTS\<close> over the join of
  the tokens with their files.
\<close>

definition validate_download_token ::
  "timestamptz \<Rightarrow> string \<Rightarrow> uuid \<Rightarrow> file_row list \<Rightarrow> download_token_row list \<Rightarrow> bool" where
  "validate_download_token now target_token target_file_id files download_tokens =
     (\<exists>dt\<in>set download_tokens. \<exists>f\<in>set files.
        f_id f = dt_file_id dt
        \<and> dt_token dt = target_token
        \<and> dt_file_id dt = target_file_id
        \<and> dt_used dt = False
        \<and> now \<le> dt_expires_at dt
        \<and> now \<le> f_expires_at f)"

text \<open>Sample tables, on which the theorems below are exercised.\<close>

definition sample_file :: "uuid \<Rightarrow> string \<Rightarrow> int \<Rightarrow> timestamptz \<Rightarrow> file_row" where
  "sample_file i name chunks e =
     \<lparr>f_id = i, f_file_name = name, f_size_bytes = chunks * 1048576, f_chunk_bytes = 1048576,
      f_total_chunks = chunks, f_iv_base_b64u = ''AAAAAAAAAAAAAAAA'', f_storage_path = name,
      f_created_at = 0, f_expires_at = e, f_pass_salt_b64u = None, f_kdf_iters = None,
      f_encrypted_filename = None, f_filename_iv = None, f_passphrase_hash = None,
      f_validation_salt_b64u = None\<rparr>"

definition sample_token ::
  "uuid \<Rightarrow> uuid \<Rightarrow> string \<Rightarrow> timestamptz \<Rightarrow> bool \<Rightarrow> bool \<Rightarrow> download_token_row" where
  "sample_token i fid tok e u m =
     \<lparr>dt_id = i, dt_file_id = fid, dt_token = tok, dt_created_at = 0, dt_expires_at = e,
      dt_used = u, dt_is_multi_use = m\<rparr>"

definition files_example :: "file_row list" where
  "files_example = [sample_file 1 ''a.bin'' 1 500, sample_file 2 ''b.bin'' 1 150,
                    sample_file 3 ''c'' 5 500]"

definition download_tokens_example :: "download_token_row list" where
  "download_tokens_example =
     [sample_token 11 1 ''tA'' 300 False False, sample_token 12 2 ''tB'' 300 False False,
      sample_token 13 3 ''tC'' 600 False True]"

section \<open>RateLimiter\<close>

text \<open>
  The rows of \<open>rate_limits\<close> as the limiter writes and reads them: key, timestamp (in
  milliseconds, as \<open>Date.now()\<close> gives it) and ip. The serial \<open>id\<close> is never read.
\<close>

record rate_limit_row =
  rl_key :: string
  rl_timestamp :: int
  rl_ip :: "string option"

text \<open>The three headers of the request that \<open>getClientIP\<close> reads (\<open>headers.get\<close> is null or a string).\<close>

record request =
  x_forwarded_for :: "string option"
  x_real_ip :: "string option"
  cf_connecting_ip :: "string option"

record RateLimitConfig =
  maxRequests :: int
  windowMs :: int
  keyGenerator :: "(request \<Rightarrow> string) option"

record RateLimitResult =
  success :: bool
  remaining :: int
  resetTime :: int
  error :: "string option"

text \<open>
  \<open>String.prototype.trim\<close> removes white space and line terminators at both ends; a
  header value is a byte string, in which these are the code points below.
\<close>

definition js_whitespace :: "char \<Rightarrow> bool" where
  "js_whitespace c = (of_char c \<in> {9, 10, 11, 12, 13, 32, 160 :: nat})"

definition trim :: "string \<Rightarrow> string" where
  "trim s = rev (dropWhile js_whitespace (rev (dropWhile js_whitespace s)))"

text \<open>
  \<open>getClientIP\<close>: a header counts when it is neither null nor empty;
  \<open>forwarded.split(',')[0]\<close> is the text before the first comma.
\<close>

definition getClientIP :: "request \<Rightarrow> string" where
  "getClientIP request =
     (case x_forwarded_for request of
        Some (c # cs) \<Rightarrow> trim (takeWhile (\<lambda>x. x \<noteq> CHR '','') (c # cs))
      | _ \<Rightarrow>
          (case x_real_ip request of
             Some (c # cs) \<Rightarrow> c # cs
           | _ \<Rightarrow>
               (case cf_connecting_ip request of
                  Some (c # cs) \<Rightarrow> c # cs
                | _ \<Rightarrow> ''unknown'')))"

text \<open>
  What the outside world does during one call: the two readings of the clock (the second
  one in the \<open>catch\<close> block), and for each of the three awaited database calls whether
  it succeeds, returns an \<open>error\<close> field, or throws. A call that fails leaves the table
  as it was.
\<close>

datatype outcome = Succeeds | ReturnsError | Throws

record backend =
  date_now :: int
  date_now_catch :: int
  select_outcome :: outcome
  delete_outcome :: outcome
  insert_outcome :: outcome

text \<open>The three fail-open results differ in the clock reading and in the message only.\<close>

definition fail_open :: "RateLimitConfig \<Rightarrow> int \<Rightarrow> string \<Rightarrow> RateLimitResult" where
  "fail_open config t msg =
     \<lparr>success = True, remaining = maxRequests config - 1, resetTime = t + windowMs config,
      error = Some msg\<rparr>"

text \<open>
  The numbers of the code are JavaScript numbers, those of the model are integers. A
  sum or a difference of two integers is computed exactly by the code when it lies
  within \<open>2^53\<close> of zero, and is rounded beyond; the model does not round, and what is
  proved of a sum is proved where it is exact.
\<close>

definition exact_number :: "int \<Rightarrow> bool" where
  "exact_number n = (- 9007199254740992 \<le> n \<and> n \<le> 9007199254740992)"

text \<open>
  \<open>new Date(t).toISOString()\<close> throws a \<open>RangeError\<close> unless \<open>t\<close> is a time value:
  at most \<open>8.64e15\<close> milliseconds from the epoch. (A difference that the code rounds is
  more than \<open>2^53\<close> from zero, so it is no time value, rounded or not.)
\<close>

definition valid_time :: "int \<Rightarrow> bool" where
  "valid_time t = (- 8640000000000000 \<le> t \<and> t \<le> 8640000000000000)"

text \<open>
  \<open>rateLimit\<close>. The argument \<open>new Date(windowStart).toISOString()\<close> of the select is
  evaluated before the select is sent, and so is \<open>new Date(now).toISOString()\<close> before
  the insert; a \<open>RangeError\<close> there is caught like any other exception. The select
  returns the rows of the key inside the window, newest first; the delete of the older
  rows of the key is issued only when the select returned a row, and its \<open>error\<close> field
  is not read; the insert is issued only below the limit. The timestamp of the oldest
  entry is read with \<open>new Date(timestamp).getTime()\<close>, which gives it back when it is a
  time value, as the timestamps are that this function has stored.
\<close>

definition rateLimit ::
  "backend \<Rightarrow> request \<Rightarrow> RateLimitConfig \<Rightarrow> rate_limit_row list \<Rightarrow>
   RateLimitResult \<times> rate_limit_row list" where
  "rateLimit env request config rate_limits =
     (let caught = fail_open config (date_now_catch env) ''Rate limit system error'';
          ip = (case keyGenerator config of Some g \<Rightarrow> g request | None \<Rightarrow> getClientIP request);
          key = ''rate_limit:'' @ ip;
          now = date_now env;
          windowStart = now - windowMs config
      in if \<not> valid_time windowStart then (caught, rate_limits)
         else
          (case select_outcome env of
             Throws \<Rightarrow> (caught, rate_limits)
           | ReturnsError \<Rightarrow> (fail_open config now ''Rate limit check failed'', rate_limits)
           | Succeeds \<Rightarrow>
             (let currentEntries =
                    rev (sort_key rl_timestamp
                      (filter (\<lambda>r. rl_key r = key \<and> windowStart \<le> rl_timestamp r) rate_limits));
                  currentCount = int (length currentEntries)
              in if currentEntries \<noteq> [] \<and> delete_outcome env = Throws then (caught, rate_limits)
                 else
                   (let rate_limits' =
                          (if currentEntries \<noteq> [] \<and> delete_outcome env = Succeeds
                           then filter (\<lambda>r. \<not> (rl_key r = key \<and> rl_timestamp r < windowStart))
                                  rate_limits
                           else rate_limits)
                    in if currentCount \<ge> maxRequests config
                       then (\<lparr>success = False, remaining = 0,
                              resetTime = (case currentEntries of
                                             [] \<Rightarrow> now + windowMs config
                                           | _ \<Rightarrow> rl_timestamp (last currentEntries) + windowMs config),
                              error = Some ''Rate limit exceeded''\<rparr>, rate_limits')
                       else if \<not> valid_time now then (caught, rate_limits')
                       else (case insert_outcome env of
                               Throws \<Rightarrow> (caught, rate_limits')
                             | ReturnsError \<Rightarrow>
                                 (fail_open config now ''Rate limit update failed'', rate_limits')
                             | Succeeds \<Rightarrow>
                                 (\<lparr>success = True,
                                   remaining = maxRequests config - currentCount - 1,
                                   resetTime = now + windowMs config, error = None\<rparr>,
                                  rate_limits' @
                                    [\<lparr>rl_key = key, rl_timestamp = now,
                                      rl_ip = (if ip = ''unknown'' then None else Some ip)\<rparr>]))))))"


text \<open>A sample request, backend and table.\<close>

definition sample_limit :: "string \<Rightarrow> int \<Rightarrow> rate_limit_row" where
  "sample_limit ip t = \<lparr>rl_key = ''rate_limit:'' @ ip, rl_timestamp = t, rl_ip = Some ip\<rparr>"

definition rate_limits_example :: "rate_limit_row list" where
  "rate_limits_example =
     [sample_limit ''1.2.3.4'' 30000, sample_limit ''1.2.3.4'' 50000,
      sample_limit ''7.7.7.7'' 90000, sample_limit ''1.2.3.4'' 45000]"

definition request_example :: request where
  "request_example =
     \<lparr>x_forwarded_for = Some '' 1.2.3.4 , 5.6.7.8'', x_real_ip = Some ''9.9.9.9'',
      cf_connecting_ip = None\<rparr>"

definition backend_example :: "outcome \<Rightarrow> outcome \<Rightarrow> outcome \<Rightarrow> backend" where
  "backend_example s d i =
     \<lparr>date_now = 100000, date_now_catch = 100001, select_outcome = s, delete_outcome = d,
      insert_outcome = i\<rparr>"

section \<open>Cipher: chunked encryption and decryption\<close>

type_synonym byte = "8 word"
type_synonym bytes = "byte list"

text \<open>
  What the chunked functions can throw: \<open>importKey\<close> refuses the raw key
  (\<open>DataError\<close>), \<open>setUint32\<close> is out of the buffer (\<open>RangeError\<close>), AES-GCM
  decryption does not authenticate (\<open>OperationError\<close>), the download of a chunk is not
  \<open>ok\<close>, or the upload of a chunk has failed on each of its attempts.
\<close>

datatype crypto_error = DataError | RangeError | OperationError | FetchFailed nat | UploadFailed nat

text \<open>
  \<open>crypto.subtle\<close> is the platform's, not the repository's: it is a parameter.
  \<open>encrypt\<close> and \<open>decrypt\<close> are AES-GCM with the imported key, the iv, the additional
  data and the text; \<open>decrypt\<close> is \<open>None\<close> when the tag does not verify.
\<close>

record 'k subtle =
  importKey :: "bytes \<Rightarrow> 'k option"
  encrypt :: "'k \<Rightarrow> bytes \<Rightarrow> bytes \<Rightarrow> bytes \<Rightarrow> bytes"
  decrypt :: "'k \<Rightarrow> bytes \<Rightarrow> bytes \<Rightarrow> bytes \<Rightarrow> bytes option"

text \<open>
  \<open>getOptimalChunkSize\<close>, and \<open>Math.ceil(file.size / chunkSize)\<close> on natural numbers
  (a file size is an integer, and the quotient of two integers of this size is rounded up
  exactly).
\<close>

definition getOptimalChunkSize :: "nat \<Rightarrow> nat" where
  "getOptimalChunkSize fileSize =
     (let MB = 1024 * 1024
      in if fileSize < 10 * MB then 1 * MB
         else if fileSize < 100 * MB then 2 * MB
         else if fileSize < 500 * MB then 3 * MB
         else 4 * MB)"

definition ceil_div :: "nat \<Rightarrow> nat \<Rightarrow> nat" where
  "ceil_div a b = (a + b - 1) div b"

text \<open>
  \<open>file.slice(start, end)\<close> for \<open>start \<le> end\<close>.
\<close>

definition file_slice :: "bytes \<Rightarrow> nat \<Rightarrow> nat \<Rightarrow> bytes" where
  "file_slice file start end = take (end - start) (drop start file)"

text \<open>
  \<open>DataView.setUint32(byteOffset, value, false)\<close>: the value is taken modulo \<open>2^32\<close>
  (a \<open>32 word\<close>) and written most significant byte first; writing past the end of the
  buffer throws. The chunk iv is a copy of \<open>ivBase\<close> with the chunk index written at 8.
\<close>

definition setUint32 :: "bytes \<Rightarrow> nat \<Rightarrow> 32 word \<Rightarrow> bytes option" where
  "setUint32 buf byteOffset v =
     (if byteOffset + 4 \<le> length buf
      then Some (buf[byteOffset := ucast (drop_bit 24 v),
                     byteOffset + 1 := ucast (drop_bit 16 v),
                     byteOffset + 2 := ucast (drop_bit 8 v),
                     byteOffset + 3 := ucast v])
      else None)"

definition chunk_iv :: "bytes \<Rightarrow> nat \<Rightarrow> bytes option" where
  "chunk_iv ivBase chunkIndex = setUint32 ivBase 8 (of_nat chunkIndex)"

text \<open>
  \<open>`chunk:${chunkIndex}/${totalChunks}`\<close>: a chunk index or count is an integer far
  below \<open>10^21\<close>, which the template prints in decimal; \<open>TextEncoder.encode\<close> of ASCII
  text gives one byte for each character.
\<close>

fun decimal :: "nat \<Rightarrow> string" where
  "decimal n = (if n < 10 then [char_of (48 + n)] else decimal (n div 10) @ [char_of (48 + n mod 10)])"

declare decimal.simps [simp del]

definition encode :: "string \<Rightarrow> bytes" where
  "encode s = map (\<lambda>c. of_nat (of_char c)) s"

definition chunk_aad :: "nat \<Rightarrow> nat \<Rightarrow> bytes" where
  "chunk_aad chunkIndex totalChunks =
     encode (''chunk:'' @ decimal chunkIndex @ ''/'' @ decimal totalChunks)"


text \<open>
  The worker pool. \<open>workers\<close> workers take the indices \<open>0 .. totalChunks - 1\<close> from a
  queue, each the next index when its task has returned; a worker whose task throws
  stops, and \<open>Promise.all(workers)\<close> rejects with the error that is thrown first in
  time, or resolves when every task has returned. \<open>tasks\<close> lists by index what each
  task does when it is run: throw (\<open>Inl\<close>) or return (\<open>Inr\<close>). A task can be the first
  to throw iff fewer than \<open>workers\<close> throwing tasks precede it in the queue: each of those
  keeps one worker waiting, and one more must be free to take it. Which of these
  candidates is first is a matter of timing, the argument \<open>timing\<close>.
\<close>

fun thrown :: "('e + 'a) list \<Rightarrow> 'e list" where
  "thrown [] = []"
| "thrown (Inl e # tasks) = e # thrown tasks"
| "thrown (Inr x # tasks) = thrown tasks"

fun returned :: "('e + 'a) list \<Rightarrow> 'a list" where
  "returned [] = []"
| "returned (Inl e # tasks) = returned tasks"
| "returned (Inr x # tasks) = x # returned tasks"

definition run_workers :: "nat \<Rightarrow> nat \<Rightarrow> ('e + 'a) list \<Rightarrow> 'e + 'a list" where
  "run_workers workers timing tasks =
     (case take workers (thrown tasks) of
        [] \<Rightarrow> Inr (returned tasks)
      | e # es \<Rightarrow> Inl ((e # es) ! (timing mod length (e # es))))"

text \<open>
  \<open>uploadChunk\<close> inside \<open>encryptAndUploadInChunks\<close>: slice, derive the iv, encrypt with
  the additional data, post. \<open>upload_ok i\<close> says that one of the attempts to post chunk
  \<open>i\<close> is answered \<open>ok\<close>. The result is the part the server stores under the index.
\<close>

definition uploadChunk ::
  "'k subtle \<Rightarrow> (nat \<Rightarrow> bool) \<Rightarrow> 'k \<Rightarrow> bytes \<Rightarrow> nat \<Rightarrow> nat \<Rightarrow> bytes \<Rightarrow> nat \<Rightarrow>
   crypto_error + (nat \<times> bytes)" where
  "uploadChunk subtle upload_ok key ivBase chunkSize totalChunks file chunkIndex =
     (let start = chunkIndex * chunkSize;
          end = min (length file) (start + chunkSize);
          buffer = file_slice file start end
      in case chunk_iv ivBase chunkIndex of
           None \<Rightarrow> Inl RangeError
         | Some iv \<Rightarrow>
             (let aad = chunk_aad chunkIndex totalChunks;
                  ciphertext = encrypt subtle key iv aad buffer
              in if upload_ok chunkIndex then Inr (chunkIndex, ciphertext)
                 else Inl (UploadFailed chunkIndex)))"

text \<open>
  \<open>encryptAndUploadInChunks\<close>, with the random \<open>generateIV()\<close> as the argument
  \<open>ivBase\<close>. \<open>encryptChunks\<close> is its body for a given \<open>chunkSize\<close>; the function itself
  takes \<open>getOptimalChunkSize(file.size)\<close>.
\<close>

definition maxConcurrency :: nat where "maxConcurrency = 6"

definition encryptChunks ::
  "'k subtle \<Rightarrow> (nat \<Rightarrow> bool) \<Rightarrow> nat \<Rightarrow> bytes \<Rightarrow> bytes \<Rightarrow> nat \<Rightarrow> bytes \<Rightarrow>
   crypto_error + (nat \<times> bytes) list" where
  "encryptChunks subtle upload_ok timing rawKey ivBase chunkSize file =
     (case importKey subtle rawKey of
        None \<Rightarrow> Inl DataError
      | Some key \<Rightarrow>
          (let totalChunks = ceil_div (length file) chunkSize
           in run_workers (min maxConcurrency totalChunks) timing
                (map (uploadChunk subtle upload_ok key ivBase chunkSize totalChunks file)
                   [0..<totalChunks])))"

definition encryptAndUploadInChunks ::
  "'k subtle \<Rightarrow> (nat \<Rightarrow> bool) \<Rightarrow> nat \<Rightarrow> bytes \<Rightarrow> bytes \<Rightarrow> bytes \<Rightarrow>
   crypto_error + (nat \<times> bytes) list" where
  "encryptAndUploadInChunks subtle upload_ok timing rawKey ivBase file =
     encryptChunks subtle upload_ok timing rawKey ivBase (getOptimalChunkSize (length file)) file"

text \<open>
  \<open>downloadAndDecryptChunk\<close> inside \<open>decryptChunkedFile\<close>: \<open>fetch i\<close> is the body of the
  response for chunk \<open>i\<close>, or \<open>None\<close> when the response is not \<open>ok\<close>.
\<close>

definition downloadAndDecryptChunk ::
  "'k subtle \<Rightarrow> (nat \<Rightarrow> bytes option) \<Rightarrow> 'k \<Rightarrow> bytes \<Rightarrow> nat \<Rightarrow> nat \<Rightarrow> crypto_error + bytes" where
  "downloadAndDecryptChunk subtle fetch key ivBase totalChunks chunkIndex =
     (case fetch chunkIndex of
        None \<Rightarrow> Inl (FetchFailed chunkIndex)
      | Some encryptedChunk \<Rightarrow>
          (case chunk_iv ivBase chunkIndex of
             None \<Rightarrow> Inl RangeError
           | Some iv \<Rightarrow>
               (let aad = chunk_aad chunkIndex totalChunks
                in case decrypt subtle key iv aad encryptedChunk of
                     None \<Rightarrow> Inl OperationError
                   | Some decryptedChunk \<Rightarrow> Inr decryptedChunk)))"

text \<open>
  \<open>decryptChunkedFile\<close> for a raw key: the decrypted chunks are stored by index and
  returned as one blob. (The final \<open>finalize\<close> request does not change the result.)
\<close>

definition maxConcurrentDownloads :: nat where "maxConcurrentDownloads = 8"

definition decryptChunkedFile ::
  "'k subtle \<Rightarrow> (nat \<Rightarrow> bytes option) \<Rightarrow> nat \<Rightarrow> bytes \<Rightarrow> bytes \<Rightarrow> nat \<Rightarrow>
   crypto_error + bytes" where
  "decryptChunkedFile subtle fetch timing keyInput ivBase totalChunks =
     (case importKey subtle keyInput of
        None \<Rightarrow> Inl DataError
      | Some key \<Rightarrow>
          (case run_workers (min maxConcurrentDownloads totalChunks) timing
                  (map (downloadAndDecryptChunk subtle fetch key ivBase totalChunks)
                     [0..<totalChunks]) of
             Inl e \<Rightarrow> Inl e
           | Inr chunks \<Rightarrow> Inr (concat chunks)))"

text \<open>
  The derivation of the chunk iv in the words of the specification: a copy of \<open>iv_base\<close>
  whose bytes 8..12 are \<open>i\<close> as a 32-bit big-endian integer. \<open>decimal_value\<close> reads a
  decimal numeral.
\<close>

definition be32 :: "nat \<Rightarrow> bytes" where
  "be32 i = [of_nat (i div 2 ^ 24 mod 256), of_nat (i div 2 ^ 16 mod 256),
             of_nat (i div 2 ^ 8 mod 256), of_nat (i mod 256)]"

definition spec_chunk_iv :: "bytes \<Rightarrow> nat \<Rightarrow> bytes" where
  "spec_chunk_iv iv_base i = take 8 iv_base @ be32 i @ drop 12 iv_base"

definition decimal_value :: "string \<Rightarrow> nat" where
  "decimal_value s = foldl (\<lambda>a c. 10 * a + (of_char c - 48)) 0 s"

text \<open>
  A toy instance of \<open>crypto.subtle\<close>, on which the theorems below are exercised: the
  ciphertext is the text behind a self-delimiting copy of key, iv and additional data,
  and decryption checks that copy.
\<close>

fun toy_header :: "bytes \<Rightarrow> bytes" where
  "toy_header [] = [0]"
| "toy_header (b # bs) = 1 # b # toy_header bs"

definition toy_encrypt :: "bytes \<Rightarrow> bytes \<Rightarrow> bytes \<Rightarrow> bytes \<Rightarrow> bytes" where
  "toy_encrypt key iv aad m = toy_header key @ toy_header iv @ toy_header aad @ m"

definition toy_decrypt :: "bytes \<Rightarrow> bytes \<Rightarrow> bytes \<Rightarrow> bytes \<Rightarrow> bytes option" where
  "toy_decrypt key iv aad c =
     (let h = toy_header key @ toy_header iv @ toy_header aad
      in if take (length h) c = h then Some (drop (length h) c) else None)"

definition toy_subtle :: "bytes subtle" where
  "toy_subtle =
     \<lparr>importKey = (\<lambda>raw. if length raw = 32 then Some raw else None),
      encrypt = toy_encrypt, decrypt = toy_decrypt\<rparr>"

definition sample_key :: bytes where "sample_key = replicate 32 1"
definition sample_iv :: bytes where "sample_iv = [9, 9, 9, 9, 9, 9, 9, 9, 9, 9, 9, 9]"
definition sample_plain :: bytes where "sample_plain = [1, 2, 3, 4, 5]"

section \<open>Codec and header values\<close>

text \<open>
  A JavaScript string is a sequence of 16-bit code units; \<open>js\<close> writes an ASCII
  literal as one.
\<close>

type_synonym code_unit = "16 word"
type_synonym jsstring = "code_unit list"

definition js :: "string \<Rightarrow> jsstring" where
  "js s = map (\<lambda>c. of_nat (of_char c)) s"

text \<open>
  \<open>s.replace(/a/g, b)\<close> for single characters \<open>a\<close> and \<open>b\<close>.
\<close>

definition replace_all :: "code_unit \<Rightarrow> code_unit \<Rightarrow> jsstring \<Rightarrow> jsstring" where
  "replace_all a b s = map (\<lambda>c. if c = a then b else c) s"

text \<open>
  \<open>atob\<close> is the platform's (the forgiving-base64 decode of the WHATWG Infra
  standard): remove the ASCII whitespace; if the length is a multiple of 4, remove one or
  two \<open>=\<close> at the end; fail if the length is 1 modulo 4 or a character is not in
  \<open>A-Z a-z 0-9 + /\<close>; then read 6 bits for each character and give the whole bytes (the
  spare 4 or 2 bits of a last group of 2 or 3 characters are dropped). \<open>None\<close> is the
  exception it throws. The result is given as the bytes that \<open>Uint8Array.from(bin, c =>
  c.charCodeAt(0))\<close> makes of the binary string.
\<close>

definition ascii_whitespace :: "code_unit \<Rightarrow> bool" where
  "ascii_whitespace c = (c = 0x09 \<or> c = 0x0A \<or> c = 0x0C \<or> c = 0x0D \<or> c = 0x20)"

definition base64_value :: "code_unit \<Rightarrow> nat option" where
  "base64_value c =
     (if 0x41 \<le> c \<and> c \<le> 0x5A then Some (unat c - 0x41)
      else if 0x61 \<le> c \<and> c \<le> 0x7A then Some (unat c - 0x61 + 26)
      else if 0x30 \<le> c \<and> c \<le> 0x39 then Some (unat c - 0x30 + 52)
      else if c = 0x2B then Some 62
      else if c = 0x2F then Some 63
      else None)"

definition remove_padding :: "jsstring \<Rightarrow> jsstring" where
  "remove_padding data =
     (case rev data of
        a # b # rest \<Rightarrow> if a = 0x3D then (if b = 0x3D then rev rest else rev (b # rest)) else data
      | [a] \<Rightarrow> if a = 0x3D then [] else data
      | [] \<Rightarrow> data)"

fun decode_sextets :: "nat list \<Rightarrow> bytes" where
  "decode_sextets (a # b # c # d # rest) =
     [of_nat (a * 4 + b div 16), of_nat (b mod 16 * 16 + c div 4), of_nat (c mod 4 * 64 + d)]
     @ decode_sextets rest"
| "decode_sextets [a, b, c] = [of_nat (a * 4 + b div 16), of_nat (b mod 16 * 16 + c div 4)]"
| "decode_sextets [a, b] = [of_nat (a * 4 + b div 16)]"
| "decode_sextets _ = []"

definition atob :: "jsstring \<Rightarrow> bytes option" where
  "atob s =
     (let data = filter (\<lambda>c. \<not> ascii_whitespace c) s;
          data = (if length data mod 4 = 0 then remove_padding data else data)
      in if length data mod 4 = 1 then None
         else case those (map base64_value data) of
                None \<Rightarrow> None
              | Some sextets \<Rightarrow> Some (decode_sextets sextets))"

text \<open>
  \<open>fromB64u\<close>: \<open>'==='.slice(k)\<close> is \<open>drop k\<close> of the three characters.
\<close>

definition fromB64u :: "jsstring \<Rightarrow> bytes option" where
  "fromB64u s =
     (let base64 = replace_all 0x5F 0x2F (replace_all 0x2D 0x2B s);
          padded = base64 @ drop ((length base64 + 3) mod 4) (js ''==='')
      in atob padded)"

text \<open>
  The URL-safe base64 alphabet: \<open>A-Z\<close>, \<open>a-z\<close>, \<open>0-9\<close>, \<open>-\<close> and \<open>_\<close>.
\<close>

definition url_safe :: "code_unit \<Rightarrow> bool" where
  "url_safe c =
     ((0x41 \<le> c \<and> c \<le> 0x5A) \<or> (0x61 \<le> c \<and> c \<le> 0x7A) \<or> (0x30 \<le> c \<and> c \<le> 0x39)
      \<or> c = 0x2D \<or> c = 0x5F)"


text \<open>
  \<open>contentDispositionAttachment\<close>. The class \<open>[\x00-\x1F\x7F]\<close>, and \<open>safeAscii\<close>: all
  control characters removed, then all double quotes, and \<open>'file'\<close> if nothing is left.
\<close>

definition control_char :: "code_unit \<Rightarrow> bool" where
  "control_char c = (c \<le> 0x1F \<or> c = 0x7F)"

definition safeAscii :: "jsstring \<Rightarrow> jsstring" where
  "safeAscii fileName =
     (let s = filter (\<lambda>c. c \<noteq> 0x22) (filter (\<lambda>c. \<not> control_char c) fileName)
      in if s = [] then js ''file'' else s)"

text \<open>
  \<open>encodeURIComponent\<close> is the platform's (ECMAScript, \<open>Encode\<close>): letters, digits
  and \<open>- _ . ! ~ * ' ( )\<close> are kept; any other code point is written as the percent-escaped
  bytes of its UTF-8 form, a surrogate pair being one code point; a surrogate that is not
  part of a pair makes it throw \<open>URIError\<close> (\<open>None\<close>).
\<close>

definition uri_unreserved :: "code_unit \<Rightarrow> bool" where
  "uri_unreserved c =
     ((0x41 \<le> c \<and> c \<le> 0x5A) \<or> (0x61 \<le> c \<and> c \<le> 0x7A) \<or> (0x30 \<le> c \<and> c \<le> 0x39)
      \<or> c = 0x2D \<or> c = 0x5F \<or> c = 0x2E \<or> c = 0x21 \<or> c = 0x7E \<or> c = 0x2A
      \<or> c = 0x27 \<or> c = 0x28 \<or> c = 0x29)"

definition lead_surrogate :: "code_unit \<Rightarrow> bool" where
  "lead_surrogate c = (0xD800 \<le> c \<and> c \<le> 0xDBFF)"

definition trail_surrogate :: "code_unit \<Rightarrow> bool" where
  "trail_surrogate c = (0xDC00 \<le> c \<and> c \<le> 0xDFFF)"

definition utf8 :: "nat \<Rightarrow> nat list" where
  "utf8 cp =
     (if cp < 0x80 then [cp]
      else if cp < 0x800 then [0xC0 + cp div 64, 0x80 + cp mod 64]
      else if cp < 0x10000 then [0xE0 + cp div 4096, 0x80 + cp div 64 mod 64, 0x80 + cp mod 64]
      else [0xF0 + cp div 262144, 0x80 + cp div 4096 mod 64, 0x80 + cp div 64 mod 64,
            0x80 + cp mod 64])"

definition hex_digit :: "nat \<Rightarrow> code_unit" where
  "hex_digit n = (if n < 10 then of_nat (0x30 + n) else of_nat (0x41 + (n - 10)))"

definition percent_encode :: "nat list \<Rightarrow> jsstring" where
  "percent_encode octets = concat (map (\<lambda>b. [0x25, hex_digit (b div 16), hex_digit (b mod 16)]) octets)"

fun encodeURIComponent :: "jsstring \<Rightarrow> jsstring option" where
  "encodeURIComponent [] = Some []"
| "encodeURIComponent (c # cs) =
     (if uri_unreserved c then map_option ((#) c) (encodeURIComponent cs)
      else if trail_surrogate c then None
      else if lead_surrogate c then
        (case cs of
           [] \<Rightarrow> None
         | d # ds \<Rightarrow>
             if trail_surrogate d
             then map_option
                    ((@) (percent_encode
                            (utf8 ((unat c - 0xD800) * 0x400 + (unat d - 0xDC00) + 0x10000))))
                    (encodeURIComponent ds)
             else None)
      else map_option ((@) (percent_encode (utf8 (unat c)))) (encodeURIComponent cs))"

text \<open>
  The header value: \<open>safeAscii\<close> is computed first, then \<open>encodeURIComponent\<close>, whose
  exception leaves the function.
\<close>

definition contentDispositionAttachment :: "jsstring \<Rightarrow> jsstring option" where
  "contentDispositionAttachment fileName =
     (case encodeURIComponent fileName of
        None \<Rightarrow> None
      | Some encoded \<Rightarrow>
          Some (js ''attachment; filename='' @ [0x22] @ safeAscii fileName @ [0x22]
                @ js ''; filename*=UTF-8'' @ [0x27, 0x27] @ encoded))"

text \<open>
  A string is well formed when every surrogate in it is part of a pair.
\<close>

fun well_formed :: "jsstring \<Rightarrow> bool" where
  "well_formed [] = True"
| "well_formed [c] = (\<not> lead_surrogate c \<and> \<not> trail_surrogate c)"
| "well_formed (c # d # ds) =
     (if lead_surrogate c then trail_surrogate d \<and> well_formed ds
      else \<not> trail_surrogate c \<and> well_formed (d # ds))"


section \<open>Properties of the BurnStore note procedures\<close>

subsection \<open>Tables with a primary key\<close>

lemma filter_key_none:
  "key x \<notin> key ` set xs \<Longrightarrow> filter (\<lambda>r. key r = key x \<and> P r) xs = []"
  by (induction xs) auto

lemma filter_key_unique:
  "distinct (map key xs) \<Longrightarrow> x \<in> set xs \<Longrightarrow> P x \<Longrightarrow>
   filter (\<lambda>r. key r = key x \<and> P r) xs = [x]"
proof (induction xs)
  case Nil
  then show ?case by simp
next
  case (Cons a xs)
  show ?case
  proof (cases "a = x")
    case True
    with Cons.prems have "key x \<notin> key ` set xs" by simp
    then have "filter (\<lambda>r. key r = key x \<and> P r) xs = []" by (rule filter_key_none)
    with True Cons.prems show ?thesis by simp
  next
    case False
    with Cons.prems have "x \<in> set xs" by simp
    with Cons.prems have "key a \<noteq> key x" by force
    with Cons \<open>x \<in> set xs\<close> show ?thesis by simp
  qed
qed

lemma key_same:
  "distinct (map key xs) \<Longrightarrow> x \<in> set xs \<Longrightarrow> r \<in> set xs \<Longrightarrow> key r = key x \<Longrightarrow> r = x"
  by (meson distinct_map inj_onD)

subsection \<open>Burn and fetch\<close>

lemma burn_live:
  assumes pk: "notes_pkey ns" and mem: "n \<in> set ns"
    and live: "now \<le> n_expires_at n" "0 < n_views_left n"
  shows "burn_and_fetch_note now (n_id n) ns =
           ([(n_ciphertext n, n_iv_b64u n)],
            map (\<lambda>r. if n_id r = n_id n then r\<lparr>n_views_left := n_views_left r - 1\<rparr> else r) ns)"
proof -
  let ?P = "\<lambda>r. now \<le> n_expires_at r \<and> 0 < n_views_left r"
  let ?n' = "n\<lparr>n_views_left := n_views_left n - 1\<rparr>"
  from pk have d: "distinct (map n_id ns)" by (simp add: notes_pkey_def)
  from live have "?P n" by simp
  with d mem have tgt: "filter (\<lambda>r. n_id r = n_id n \<and> ?P r) ns = [n]"
    by (rule filter_key_unique [where key = n_id])
  have same: "\<And>r. r \<in> set ns \<Longrightarrow> n_id r = n_id n \<Longrightarrow> r = n"
    using d mem by (meson distinct_map inj_onD)
  have upd: "map (\<lambda>r. case find (\<lambda>t. n_id r = n_id t) [n] of
                         Some t \<Rightarrow> r\<lparr>n_views_left := n_views_left t - 1\<rparr> | None \<Rightarrow> r) ns
             = map (\<lambda>r. if n_id r = n_id n then r\<lparr>n_views_left := n_views_left r - 1\<rparr> else r) ns"
    by (rule map_cong) (auto dest: same)
  have "filter (\<lambda>r. n_id r = n_id n \<and> True) ns = [n]"
    using d mem by (rule filter_key_unique [where key = n_id]) simp
  then have one: "filter (\<lambda>r. n_id r = n_id n) ns = [n]" by simp
  have ret: "filter (\<lambda>r. find (\<lambda>t. n_id r = n_id t) [n] \<noteq> None)
               (map (\<lambda>r. if n_id r = n_id n then r\<lparr>n_views_left := n_views_left r - 1\<rparr> else r) ns)
             = [?n']"
  proof -
    have "filter (\<lambda>r. find (\<lambda>t. n_id r = n_id t) [n] \<noteq> None)
               (map (\<lambda>r. if n_id r = n_id n then r\<lparr>n_views_left := n_views_left r - 1\<rparr> else r) ns)
          = map (\<lambda>r. r\<lparr>n_views_left := n_views_left r - 1\<rparr>) (filter (\<lambda>r. n_id r = n_id n) ns)"
      by (induction ns) auto
    with one show ?thesis by simp
  qed
  show ?thesis
    unfolding burn_and_fetch_note_def Let_def tgt upd ret by simp
qed

lemma burn_gone:
  assumes "\<forall>n\<in>set ns. \<not> (n_id n = target_id \<and> now \<le> n_expires_at n \<and> 0 < n_views_left n)"
  shows "burn_and_fetch_note now target_id ns = ([], ns)"
proof -
  from assms
  have "filter (\<lambda>r. n_id r = target_id \<and> now \<le> n_expires_at r \<and> 0 < n_views_left r) ns = []"
    by (auto simp: filter_empty_conv)
  then show ?thesis
    unfolding burn_and_fetch_note_def Let_def by (simp add: map_idI)
qed

text \<open>
  Claim C1. On a notes table with its primary key, \<open>burn_and_fetch_note\<close> called on the
  id of a note with \<open>now \<le> expires_at\<close> and \<open>views_left > 0\<close> returns exactly that note's
  \<open>(ciphertext, iv)\<close> and leaves the table with that note's \<open>views_left\<close> lowered by one
  and every other row as it was; the handler answers 200 with the pair. When no row with
  the id is live (the note is missing, expired or has no view left) it returns no row,
  the table is unchanged, and the handler answers 404.
\<close>

theorem burn_and_fetch_note_spec:
  assumes "notes_pkey ns"
  shows "(\<forall>n\<in>set ns. n_id n = target_id \<and> now \<le> n_expires_at n \<and> 0 < n_views_left n \<longrightarrow>
            burn_and_fetch_note now target_id ns =
              ([(n_ciphertext n, n_iv_b64u n)],
               map (\<lambda>r. if n_id r = target_id then r\<lparr>n_views_left := n_views_left r - 1\<rparr> else r) ns)
            \<and> fetch_response_of (RpcData (fst (burn_and_fetch_note now target_id ns)))
                = Fetch_200 (n_ciphertext n) (n_iv_b64u n))
       \<and> ((\<forall>n\<in>set ns. \<not> (n_id n = target_id \<and> now \<le> n_expires_at n \<and> 0 < n_views_left n)) \<longrightarrow>
            burn_and_fetch_note now target_id ns = ([], ns)
            \<and> fetch_response_of (RpcData (fst (burn_and_fetch_note now target_id ns))) = Fetch_404)"
proof (intro conjI ballI impI)
  fix n
  assume n: "n \<in> set ns" "n_id n = target_id \<and> now \<le> n_expires_at n \<and> 0 < n_views_left n"
  with assms burn_live [of ns n now]
  show b: "burn_and_fetch_note now target_id ns =
              ([(n_ciphertext n, n_iv_b64u n)],
               map (\<lambda>r. if n_id r = target_id then r\<lparr>n_views_left := n_views_left r - 1\<rparr> else r) ns)"
    by auto
  show "fetch_response_of (RpcData (fst (burn_and_fetch_note now target_id ns)))
          = Fetch_200 (n_ciphertext n) (n_iv_b64u n)"
    by (simp add: b fetch_response_of_def)
next
  assume g: "\<forall>n\<in>set ns. \<not> (n_id n = target_id \<and> now \<le> n_expires_at n \<and> 0 < n_views_left n)"
  then show b: "burn_and_fetch_note now target_id ns = ([], ns)" by (rule burn_gone)
  show "fetch_response_of (RpcData (fst (burn_and_fetch_note now target_id ns))) = Fetch_404"
    by (simp add: b fetch_response_of_def)
qed

text \<open>
  The theorem at the sample table at time 100: note 1 is burnt, and notes 2 (no view
  left), 3 (expired at 50) and 9 (not in the table) are gone.
\<close>

theorem burn_and_fetch_note_spec_witness:
  "burn_and_fetch_note 100 1 notes_example
     = ([(''c1'', ''i1'')],
        [sample_note 1 ''c1'' ''i1'' 200 0 None, sample_note 2 ''c2'' ''i2'' 200 0 (Some ''h2''),
         sample_note 3 ''c3'' ''i3'' 50 2 None, sample_note 4 ''c4'' ''i4'' 200 3 (Some ''h4'')])
   \<and> fetch_response_of (RpcData (fst (burn_and_fetch_note 100 1 notes_example))) = Fetch_200 ''c1'' ''i1''
   \<and> burn_and_fetch_note 100 2 notes_example = ([], notes_example)
   \<and> burn_and_fetch_note 100 3 notes_example = ([], notes_example)
   \<and> burn_and_fetch_note 100 9 notes_example = ([], notes_example)
   \<and> fetch_response_of (RpcData (fst (burn_and_fetch_note 100 9 notes_example))) = Fetch_404"
proof -
  have pk: "notes_pkey notes_example"
    by (simp add: notes_pkey_def notes_example_def sample_note_def)
  show ?thesis
    using burn_and_fetch_note_spec [OF pk, of 1 100] burn_and_fetch_note_spec [OF pk, of 2 100]
      burn_and_fetch_note_spec [OF pk, of 3 100] burn_and_fetch_note_spec [OF pk, of 9 100]
    by (simp add: notes_example_def sample_note_def fetch_response_of_def)
qed

text \<open>
  Two calls one after the other on a live note with one view left: the first returns the
  note, the second finds it gone. (Calls that overlap in time are ordered by the row lock
  that \<open>FOR UPDATE\<close> takes, which is the database's part.)
\<close>

lemma burn_and_fetch_note_twice:
  assumes pk: "notes_pkey ns" and mem: "n \<in> set ns"
    and live: "now \<le> n_expires_at n" and one: "n_views_left n = 1"
  shows "burn_and_fetch_note now (n_id n) ns = ([(n_ciphertext n, n_iv_b64u n)],
            map (\<lambda>r. if n_id r = n_id n then r\<lparr>n_views_left := n_views_left r - 1\<rparr> else r) ns)
       \<and> burn_and_fetch_note now' (n_id n)
            (map (\<lambda>r. if n_id r = n_id n then r\<lparr>n_views_left := n_views_left r - 1\<rparr> else r) ns)
          = ([], map (\<lambda>r. if n_id r = n_id n then r\<lparr>n_views_left := n_views_left r - 1\<rparr> else r) ns)"
proof
  let ?ns' = "map (\<lambda>r. if n_id r = n_id n then r\<lparr>n_views_left := n_views_left r - 1\<rparr> else r) ns"
  from one have pos: "0 < n_views_left n" by simp
  show "burn_and_fetch_note now (n_id n) ns = ([(n_ciphertext n, n_iv_b64u n)], ?ns')"
    using pk mem live pos by (rule burn_live)
  from pk have d: "distinct (map n_id ns)" by (simp add: notes_pkey_def)
  have same: "\<And>r. r \<in> set ns \<Longrightarrow> n_id r = n_id n \<Longrightarrow> r = n"
    using d mem by (rule key_same)
  have "\<forall>r\<in>set ?ns'. \<not> (n_id r = n_id n \<and> now' \<le> n_expires_at r \<and> 0 < n_views_left r)"
    using one by (auto dest: same)
  then show "burn_and_fetch_note now' (n_id n) ?ns' = ([], ?ns')" by (rule burn_gone)
qed


subsection \<open>Passphrase validation\<close>

lemma validate_stored_hash:
  assumes pk: "notes_pkey ns"
  shows "(case filter (\<lambda>r. n_id r = target_id \<and> now \<le> n_expires_at r \<and> 0 < n_views_left r
                               \<and> n_passphrase_hash r \<noteq> None) ns of
               [] \<Rightarrow> None
             | r # _ \<Rightarrow> n_passphrase_hash r) = Some h
         \<longleftrightarrow> (\<exists>n\<in>set ns. n_id n = target_id \<and> now \<le> n_expires_at n \<and> 0 < n_views_left n
                 \<and> n_passphrase_hash n = Some h)"
  (is "?lhs = Some h \<longleftrightarrow> ?rhs")
proof
  let ?P = "\<lambda>r. now \<le> n_expires_at r \<and> 0 < n_views_left r \<and> n_passphrase_hash r \<noteq> None"
  assume l: "?lhs = Some h"
  then obtain r rs where f: "filter (\<lambda>r. n_id r = target_id \<and> ?P r) ns = r # rs"
    by (auto split: list.splits)
  then have "r \<in> set (filter (\<lambda>r. n_id r = target_id \<and> ?P r) ns)" by simp
  then have "r \<in> set ns" "n_id r = target_id" "?P r" by auto
  moreover from l f have "n_passphrase_hash r = Some h" by simp
  ultimately show ?rhs by blast
next
  let ?P = "\<lambda>r. now \<le> n_expires_at r \<and> 0 < n_views_left r \<and> n_passphrase_hash r \<noteq> None"
  assume ?rhs
  then obtain n where n: "n \<in> set ns" "n_id n = target_id" "?P n" "n_passphrase_hash n = Some h"
    by auto
  from pk have "distinct (map n_id ns)" by (simp add: notes_pkey_def)
  from this n(1) n(3) have "filter (\<lambda>r. n_id r = n_id n \<and> ?P r) ns = [n]"
    by (rule filter_key_unique [where key = n_id])
  with n(2) n(4) show "?lhs = Some h" by simp
qed

lemma validate_fst_Some:
  assumes pk: "notes_pkey ns"
  shows "fst (validate_note_passphrase now target_id (Some h) ns) =
           Some (\<exists>n\<in>set ns. n_id n = target_id \<and> now \<le> n_expires_at n \<and> 0 < n_views_left n
                   \<and> n_passphrase_hash n = Some h)"
proof -
  let ?S = "case filter (\<lambda>r. n_id r = target_id \<and> now \<le> n_expires_at r \<and> 0 < n_views_left r
                               \<and> n_passphrase_hash r \<noteq> None) ns of
               [] \<Rightarrow> None
             | r # _ \<Rightarrow> n_passphrase_hash r"
  let ?E = "\<exists>n\<in>set ns. n_id n = target_id \<and> now \<le> n_expires_at n \<and> 0 < n_views_left n
                   \<and> n_passphrase_hash n = Some h"
  have S: "?S = Some h \<longleftrightarrow> ?E" by (rule validate_stored_hash [OF pk])
  show ?thesis
  proof (cases ?S)
    case None
    then have "\<not> ?E" using S by simp
    with None show ?thesis by (simp add: validate_note_passphrase_def)
  next
    case (Some s)
    then have "?E \<longleftrightarrow> s = h" using S by simp
    with Some show ?thesis by (simp add: validate_note_passphrase_def sql_eq_def)
  qed
qed

lemma validate_null_hash:
  "fst (validate_note_passphrase now target_id None ns) \<noteq> Some True"
  by (auto simp: validate_note_passphrase_def sql_eq_def Let_def split: option.splits)

lemma validate_read_only:
  "snd (validate_note_passphrase now target_id provided_hash ns) = ns"
  by (simp add: validate_note_passphrase_def Let_def)

text \<open>
  Claim C6. On a notes table with its primary key, \<open>validate_note_passphrase\<close> called with
  a hash \<open>h\<close> returns the boolean that is true exactly when a note with the id exists,
  \<open>now \<le> expires_at\<close>, \<open>views_left > 0\<close> and its \<open>passphrase_hash\<close> is non-null and equal
  to \<open>h\<close>: one boolean, the same \<open>false\<close> whichever condition fails. The handler's
  \<open>valid\<close> is true under exactly the same conditions (also for a NULL argument), and the
  procedure leaves the table, hence every \<open>views_left\<close>, as it was.
\<close>

theorem validate_note_passphrase_spec:
  assumes "notes_pkey ns"
  shows "fst (validate_note_passphrase now target_id (Some h) ns) =
           Some (\<exists>n\<in>set ns. n_id n = target_id \<and> now \<le> n_expires_at n \<and> 0 < n_views_left n
                   \<and> n_passphrase_hash n \<noteq> None \<and> n_passphrase_hash n = Some h)
       \<and> (validate_response_valid (fst (validate_note_passphrase now target_id provided_hash ns)) \<longleftrightarrow>
           (\<exists>n\<in>set ns. n_id n = target_id \<and> now \<le> n_expires_at n \<and> 0 < n_views_left n
                   \<and> n_passphrase_hash n \<noteq> None \<and> n_passphrase_hash n = provided_hash))
       \<and> snd (validate_note_passphrase now target_id provided_hash ns) = ns"
proof (intro conjI)
  show "fst (validate_note_passphrase now target_id (Some h) ns) =
           Some (\<exists>n\<in>set ns. n_id n = target_id \<and> now \<le> n_expires_at n \<and> 0 < n_views_left n
                   \<and> n_passphrase_hash n \<noteq> None \<and> n_passphrase_hash n = Some h)"
    using validate_fst_Some [OF assms, of now target_id h] by auto
  show "validate_response_valid (fst (validate_note_passphrase now target_id provided_hash ns)) \<longleftrightarrow>
           (\<exists>n\<in>set ns. n_id n = target_id \<and> now \<le> n_expires_at n \<and> 0 < n_views_left n
                   \<and> n_passphrase_hash n \<noteq> None \<and> n_passphrase_hash n = provided_hash)"
  proof (cases provided_hash)
    case None
    then show ?thesis
      using validate_null_hash [of now target_id ns] by (auto simp: validate_response_valid_def)
  next
    case (Some p)
    then show ?thesis
      using validate_fst_Some [OF assms, of now target_id p]
      by (auto simp: validate_response_valid_def)
  qed
  show "snd (validate_note_passphrase now target_id provided_hash ns) = ns"
    by (rule validate_read_only)
qed


text \<open>
  The theorem at the sample table at time 100: the right hash of the live note 4 is
  accepted; a wrong hash, the right hash of note 2 (no view left), any hash for note 1
  (no passphrase) and for the unknown id 9 give the same \<open>false\<close>; the table is unchanged.
\<close>

theorem validate_note_passphrase_spec_witness:
  "validate_note_passphrase 100 4 (Some ''h4'') notes_example = (Some True, notes_example)
   \<and> validate_note_passphrase 100 4 (Some ''h2'') notes_example = (Some False, notes_example)
   \<and> validate_note_passphrase 100 2 (Some ''h2'') notes_example = (Some False, notes_example)
   \<and> validate_note_passphrase 100 1 (Some ''h4'') notes_example = (Some False, notes_example)
   \<and> validate_note_passphrase 100 9 (Some ''h4'') notes_example = (Some False, notes_example)
   \<and> validate_response_valid (fst (validate_note_passphrase 100 4 (Some ''h4'') notes_example))
   \<and> \<not> validate_response_valid (fst (validate_note_passphrase 100 4 None notes_example))"
proof -
  let ?ok = "\<lambda>i h. \<exists>n\<in>set notes_example. n_id n = i \<and> (100::int) \<le> n_expires_at n
               \<and> 0 < n_views_left n \<and> n_passphrase_hash n \<noteq> None \<and> n_passphrase_hash n = h"
  have pk: "notes_pkey notes_example"
    by (simp add: notes_pkey_def notes_example_def sample_note_def)
  have c: "?ok 4 (Some ''h4'') = True" "?ok 4 (Some ''h2'') = False" "?ok 2 (Some ''h2'') = False"
    "?ok 1 (Some ''h4'') = False" "?ok 9 (Some ''h4'') = False" "?ok 4 None = False"
    by (simp_all add: notes_example_def sample_note_def)
  have "validate_note_passphrase 100 4 (Some ''h4'') notes_example = (Some True, notes_example)"
    using validate_note_passphrase_spec [OF pk, of 100 4 "''h4''" "Some ''h4''"]
    unfolding c by (simp add: prod_eq_iff)
  moreover have "validate_note_passphrase 100 4 (Some ''h2'') notes_example = (Some False, notes_example)"
    using validate_note_passphrase_spec [OF pk, of 100 4 "''h2''" "Some ''h2''"]
    unfolding c by (simp add: prod_eq_iff)
  moreover have "validate_note_passphrase 100 2 (Some ''h2'') notes_example = (Some False, notes_example)"
    using validate_note_passphrase_spec [OF pk, of 100 2 "''h2''" "Some ''h2''"]
    unfolding c by (simp add: prod_eq_iff)
  moreover have "validate_note_passphrase 100 1 (Some ''h4'') notes_example = (Some False, notes_example)"
    using validate_note_passphrase_spec [OF pk, of 100 1 "''h4''" "Some ''h4''"]
    unfolding c by (simp add: prod_eq_iff)
  moreover have "validate_note_passphrase 100 9 (Some ''h4'') notes_example = (Some False, notes_example)"
    using validate_note_passphrase_spec [OF pk, of 100 9 "''h4''" "Some ''h4''"]
    unfolding c by (simp add: prod_eq_iff)
  moreover have "validate_response_valid (fst (validate_note_passphrase 100 4 (Some ''h4'') notes_example))"
    using validate_note_passphrase_spec [OF pk, of 100 4 "''h4''" "Some ''h4''"]
    unfolding c by blast
  moreover have "\<not> validate_response_valid (fst (validate_note_passphrase 100 4 None notes_example))"
    using validate_note_passphrase_spec [OF pk, of 100 4 "''h4''" "None"]
    unfolding c by blast
  ultimately show ?thesis by blast
qed

section \<open>Properties of the download tokens\<close>

lemma validate_token_iff:
  assumes k: "download_tokens_keys tokens" and fk: "files_pkey files"
    and dt: "dt \<in> set tokens" and f: "f \<in> set files" "f_id f = dt_file_id dt"
  shows "validate_download_token now (dt_token dt) (dt_file_id dt) files tokens
         \<longleftrightarrow> now \<le> dt_expires_at dt \<and> now \<le> f_expires_at f \<and> \<not> dt_used dt"
proof -
  from k have d: "distinct (map dt_token tokens)" by (simp add: download_tokens_keys_def)
  from fk have df: "distinct (map f_id files)" by (simp add: files_pkey_def)
  have t: "\<And>r. r \<in> set tokens \<Longrightarrow> dt_token r = dt_token dt \<Longrightarrow> r = dt"
    using d dt by (rule key_same)
  have g: "\<And>r. r \<in> set files \<Longrightarrow> f_id r = f_id f \<Longrightarrow> r = f"
    using df f(1) by (rule key_same)
  show ?thesis
  proof
    assume "validate_download_token now (dt_token dt) (dt_file_id dt) files tokens"
    then obtain r h where rh: "r \<in> set tokens" "h \<in> set files" "f_id h = dt_file_id r"
      "dt_token r = dt_token dt" "\<not> dt_used r" "now \<le> dt_expires_at r" "now \<le> f_expires_at h"
      unfolding validate_download_token_def by auto
    from rh(1,4) have "r = dt" by (rule t)
    with rh(2,3) f(2) have "h = f" by (auto intro: g)
    with \<open>r = dt\<close> rh show "now \<le> dt_expires_at dt \<and> now \<le> f_expires_at f \<and> \<not> dt_used dt"
      by simp
  next
    assume "now \<le> dt_expires_at dt \<and> now \<le> f_expires_at f \<and> \<not> dt_used dt"
    with dt f show "validate_download_token now (dt_token dt) (dt_file_id dt) files tokens"
      unfolding validate_download_token_def by (intro bexI [of _ dt] bexI [of _ f]) auto
  qed
qed

lemma consume_found:
  assumes k: "download_tokens_keys tokens" and fk: "files_pkey files"
    and dt: "dt \<in> set tokens" and f: "f \<in> set files" "f_id f = dt_file_id dt"
    and live: "\<not> dt_used dt" "now \<le> dt_expires_at dt"
  shows "consume_download_token now (dt_token dt) files tokens =
          (if dt_is_multi_use dt
           then Inl (RaiseException ''This token is for a chunked download and cannot be consumed here. Use the chunk download endpoint instead.'')
           else Inr (if now \<le> f_expires_at f then [(f_id f, f)] else [],
                     map (\<lambda>r. if r = dt then dt\<lparr>dt_used := True\<rparr> else r) tokens))"
proof -
  from k have d: "distinct (map dt_token tokens)" and di: "distinct (map dt_id tokens)"
    by (simp_all add: download_tokens_keys_def)
  from fk have df: "distinct (map f_id files)" by (simp add: files_pkey_def)
  from live have "dt_used dt = False \<and> now \<le> dt_expires_at dt" by simp
  with d dt have sel: "filter (\<lambda>r. dt_token r = dt_token dt \<and> dt_used r = False \<and> now \<le> dt_expires_at r) tokens = [dt]"
    by (rule filter_key_unique)
  have upd: "map (\<lambda>r. if dt_id r = dt_id dt then r\<lparr>dt_used := True\<rparr> else r) tokens
             = map (\<lambda>r. if r = dt then dt\<lparr>dt_used := True\<rparr> else r) tokens"
    by (rule map_cong) (auto dest: key_same [OF di dt])
  have fs: "filter (\<lambda>r. f_id r = dt_file_id dt \<and> now \<le> f_expires_at r) files
            = (if now \<le> f_expires_at f then [f] else [])"
  proof (cases "now \<le> f_expires_at f")
    case True
    with df f(1) have "filter (\<lambda>r. f_id r = f_id f \<and> now \<le> f_expires_at r) files = [f]"
      by (rule filter_key_unique)
    with True f(2) show ?thesis by simp
  next
    case False
    have "\<And>r. r \<in> set files \<Longrightarrow> f_id r = f_id f \<Longrightarrow> r = f"
      using df f(1) by (rule key_same)
    with False f(2) show ?thesis by (auto simp: filter_empty_conv)
  qed
  have "consume_download_token now (dt_token dt) files tokens =
          (if dt_is_multi_use dt
           then Inl (RaiseException ''This token is for a chunked download and cannot be consumed here. Use the chunk download endpoint instead.'')
           else Inr (map (\<lambda>f. (f_id f, f))
                      (filter (\<lambda>f. f_id f = dt_file_id dt \<and> now \<le> f_expires_at f) files),
                     map (\<lambda>r. if dt_id r = dt_id dt then r\<lparr>dt_used := True\<rparr> else r) tokens))"
    by (simp only: consume_download_token_def sel list.case)
  also have "\<dots> =
          (if dt_is_multi_use dt
           then Inl (RaiseException ''This token is for a chunked download and cannot be consumed here. Use the chunk download endpoint instead.'')
           else Inr (if now \<le> f_expires_at f then [(f_id f, f)] else [],
                     map (\<lambda>r. if r = dt then dt\<lparr>dt_used := True\<rparr> else r) tokens))"
    unfolding upd fs by simp
  finally show ?thesis .
qed

lemma consume_not_found:
  assumes k: "download_tokens_keys tokens" and dt: "dt \<in> set tokens"
    and dead: "dt_used dt \<or> dt_expires_at dt < now"
  shows "consume_download_token now (dt_token dt) files tokens = Inr ([], tokens)"
proof -
  from k have d: "distinct (map dt_token tokens)" by (simp add: download_tokens_keys_def)
  have "\<And>r. r \<in> set tokens \<Longrightarrow> dt_token r = dt_token dt \<Longrightarrow> r = dt"
    using d dt by (rule key_same)
  then have "\<And>r. r \<in> set tokens \<Longrightarrow> dt_token r = dt_token dt \<Longrightarrow>
                 dt_used r \<or> dt_expires_at r < now"
    using dead by blast
  then have "filter (\<lambda>r. dt_token r = dt_token dt \<and> dt_used r = False \<and> now \<le> dt_expires_at r) tokens = []"
    unfolding filter_empty_conv by fastforce
  then show ?thesis by (simp add: consume_download_token_def)
qed

lemma keys_after_use:
  assumes "download_tokens_keys tokens"
  shows "download_tokens_keys (map (\<lambda>r. if r = dt then dt\<lparr>dt_used := True\<rparr> else r) tokens)"
proof -
  have a: "map dt_id (map (\<lambda>r. if r = dt then dt\<lparr>dt_used := True\<rparr> else r) tokens) = map dt_id tokens"
    by (induction tokens) simp_all
  have b: "map dt_token (map (\<lambda>r. if r = dt then dt\<lparr>dt_used := True\<rparr> else r) tokens) = map dt_token tokens"
    by (induction tokens) simp_all
  show ?thesis using assms unfolding download_tokens_keys_def a b .
qed


text \<open>
  Claim C7, as amended. For a token row and its file, in tables with their keys:
  \<open>validate_download_token\<close> accepts the token for its file exactly when
  \<open>now \<le> token.expires_at\<close>, \<open>now \<le> file.expires_at\<close> and \<open>used = false\<close>. For a
  single-use token, \<open>consume_download_token\<close> finds it exactly when it is unused and
  unexpired, then flips \<open>used\<close> of this row alone and returns the file if and only if
  the file has not expired; any later consumption returns no row and changes nothing.
  So a granted read implies \<open>used = true\<close>, and \<open>used = true\<close> says only that a
  consumption found the token unused and unexpired. A multi-use token that is found
  makes \<open>consume_download_token\<close> raise.
\<close>

theorem download_token_spec:
  assumes k: "download_tokens_keys tokens" and fk: "files_pkey files"
    and dt: "dt \<in> set tokens" and f: "f \<in> set files" "f_id f = dt_file_id dt"
  shows "(validate_download_token now (dt_token dt) (dt_file_id dt) files tokens
           \<longleftrightarrow> now \<le> dt_expires_at dt \<and> now \<le> f_expires_at f \<and> \<not> dt_used dt)
       \<and> (\<not> dt_is_multi_use dt \<longrightarrow>
            consume_download_token now (dt_token dt) files tokens =
              (if \<not> dt_used dt \<and> now \<le> dt_expires_at dt
               then Inr (if now \<le> f_expires_at f then [(f_id f, f)] else [],
                         map (\<lambda>r. if r = dt then dt\<lparr>dt_used := True\<rparr> else r) tokens)
               else Inr ([], tokens))
            \<and> consume_download_token now' (dt_token dt) files
                 (map (\<lambda>r. if r = dt then dt\<lparr>dt_used := True\<rparr> else r) tokens)
               = Inr ([], map (\<lambda>r. if r = dt then dt\<lparr>dt_used := True\<rparr> else r) tokens))
       \<and> (dt_is_multi_use dt \<longrightarrow>
            consume_download_token now (dt_token dt) files tokens =
              (if \<not> dt_used dt \<and> now \<le> dt_expires_at dt
               then Inl (RaiseException ''This token is for a chunked download and cannot be consumed here. Use the chunk download endpoint instead.'')
               else Inr ([], tokens)))"
proof (intro conjI impI)
  show "validate_download_token now (dt_token dt) (dt_file_id dt) files tokens
           \<longleftrightarrow> now \<le> dt_expires_at dt \<and> now \<le> f_expires_at f \<and> \<not> dt_used dt"
    using assms by (rule validate_token_iff)
next
  assume single: "\<not> dt_is_multi_use dt"
  show "consume_download_token now (dt_token dt) files tokens =
              (if \<not> dt_used dt \<and> now \<le> dt_expires_at dt
               then Inr (if now \<le> f_expires_at f then [(f_id f, f)] else [],
                         map (\<lambda>r. if r = dt then dt\<lparr>dt_used := True\<rparr> else r) tokens)
               else Inr ([], tokens))"
  proof (cases "\<not> dt_used dt \<and> now \<le> dt_expires_at dt")
    case True
    then have "\<not> dt_used dt" "now \<le> dt_expires_at dt" by simp_all
    from consume_found [OF k fk dt f this] single show ?thesis
      by (simp only: if_P [OF True] if_False)
  next
    case False
    then have "dt_used dt \<or> dt_expires_at dt < now" by auto
    from consume_not_found [OF k dt this] show ?thesis
      by (simp only: if_not_P [OF False])
  qed
next
  assume single: "\<not> dt_is_multi_use dt"
  let ?dt' = "dt\<lparr>dt_used := True\<rparr>"
  let ?tokens' = "map (\<lambda>r. if r = dt then ?dt' else r) tokens"
  have k': "download_tokens_keys ?tokens'" using k by (rule keys_after_use)
  have mem: "?dt' \<in> set ?tokens'" using dt by force
  have "consume_download_token now' (dt_token ?dt') files ?tokens' = Inr ([], ?tokens')"
    using k' mem by (rule consume_not_found) simp
  then show "consume_download_token now' (dt_token dt) files ?tokens' = Inr ([], ?tokens')"
    by simp
next
  assume multi: "dt_is_multi_use dt"
  show "consume_download_token now (dt_token dt) files tokens =
              (if \<not> dt_used dt \<and> now \<le> dt_expires_at dt
               then Inl (RaiseException ''This token is for a chunked download and cannot be consumed here. Use the chunk download endpoint instead.'')
               else Inr ([], tokens))"
  proof (cases "\<not> dt_used dt \<and> now \<le> dt_expires_at dt")
    case True
    then have "\<not> dt_used dt" "now \<le> dt_expires_at dt" by simp_all
    from consume_found [OF k fk dt f this] multi show ?thesis
      by (simp only: if_P [OF True] if_True)
  next
    case False
    then have "dt_used dt \<or> dt_expires_at dt < now" by auto
    from consume_not_found [OF k dt this] show ?thesis
      by (simp only: if_not_P [OF False])
  qed
qed

text \<open>
  The last part of claim C7 as stated (\<open>used = true\<close> implies that the read succeeded)
  fails: at time 200 token \<open>tB\<close> is unused and unexpired (it expires at 300) and its file
  expired at 150; the consumption marks the token used and returns no file.
\<close>

theorem download_token_used_without_read:
  "dt_used (sample_token 12 2 ''tB'' 300 False False) = False
   \<and> sample_token 12 2 ''tB'' 300 False False \<in> set download_tokens_example
   \<and> consume_download_token 200 ''tB'' files_example download_tokens_example =
     Inr ([], [sample_token 11 1 ''tA'' 300 False False, sample_token 12 2 ''tB'' 300 True False,
               sample_token 13 3 ''tC'' 600 False True])"
  by (simp add: consume_download_token_def files_example_def download_tokens_example_def
        sample_token_def sample_file_def)

text \<open>
  The theorem at the sample tables: at time 100 token \<open>tA\<close> is valid, its consumption
  returns file 1 and marks \<open>tA\<close> used, and a second consumption returns nothing; at time
  200 token \<open>tB\<close> is not valid, its file having expired.
\<close>

theorem download_token_spec_witness:
  "validate_download_token 100 ''tA'' 1 files_example download_tokens_example
   \<and> \<not> validate_download_token 200 ''tB'' 2 files_example download_tokens_example
   \<and> consume_download_token 100 ''tA'' files_example download_tokens_example =
       Inr ([(1, sample_file 1 ''a.bin'' 1 500)],
            [sample_token 11 1 ''tA'' 300 True False, sample_token 12 2 ''tB'' 300 False False,
             sample_token 13 3 ''tC'' 600 False True])
   \<and> consume_download_token 101 ''tA'' files_example
        [sample_token 11 1 ''tA'' 300 True False, sample_token 12 2 ''tB'' 300 False False,
         sample_token 13 3 ''tC'' 600 False True]
      = Inr ([], [sample_token 11 1 ''tA'' 300 True False, sample_token 12 2 ''tB'' 300 False False,
         sample_token 13 3 ''tC'' 600 False True])"
proof -
  have k: "download_tokens_keys download_tokens_example"
    by (simp add: download_tokens_keys_def download_tokens_example_def sample_token_def)
  have fk: "files_pkey files_example"
    by (simp add: files_pkey_def files_example_def sample_file_def)
  have a: "sample_token 11 1 ''tA'' 300 False False \<in> set download_tokens_example"
    and b: "sample_token 12 2 ''tB'' 300 False False \<in> set download_tokens_example"
    by (simp_all add: download_tokens_example_def)
  have fa: "sample_file 1 ''a.bin'' 1 500 \<in> set files_example"
    "f_id (sample_file 1 ''a.bin'' 1 500) = dt_file_id (sample_token 11 1 ''tA'' 300 False False)"
    and fb: "sample_file 2 ''b.bin'' 1 150 \<in> set files_example"
    "f_id (sample_file 2 ''b.bin'' 1 150) = dt_file_id (sample_token 12 2 ''tB'' 300 False False)"
    by (simp_all add: files_example_def sample_file_def sample_token_def)
  have m: "map (\<lambda>r. if r = sample_token 11 1 ''tA'' 300 False False
                     then (sample_token 11 1 ''tA'' 300 False False)\<lparr>dt_used := True\<rparr> else r)
              download_tokens_example
           = [sample_token 11 1 ''tA'' 300 True False, sample_token 12 2 ''tB'' 300 False False,
              sample_token 13 3 ''tC'' 600 False True]"
    by (simp add: download_tokens_example_def sample_token_def)
  show ?thesis
    using download_token_spec [OF k fk a fa, of 100 101]
      download_token_spec [OF k fk b fb, of 200 201]
    unfolding m by (simp add: sample_token_def sample_file_def)
qed

section \<open>Properties of the rate limiter\<close>

lemma oldest_is_Min:
  assumes "xs \<noteq> []"
  shows "rl_timestamp (last (rev (sort_key rl_timestamp xs))) = Min (rl_timestamp ` set xs)"
proof -
  let ?ys = "sort_key rl_timestamp xs"
  from assms have ne: "?ys \<noteq> []" by (metis length_0_conv length_sort)
  then obtain y ys where ys: "?ys = y # ys" by (cases ?ys) auto
  have "sorted (map rl_timestamp ?ys)" by (rule sorted_sort_key)
  with ys have le: "\<forall>z\<in>set ?ys. rl_timestamp y \<le> rl_timestamp z" by auto
  have mem: "y \<in> set ?ys" using ys by simp
  have "Min (rl_timestamp ` set xs) = rl_timestamp y"
  proof (rule Min_eqI)
    show "finite (rl_timestamp ` set xs)" by simp
    show "\<And>t. t \<in> rl_timestamp ` set xs \<Longrightarrow> rl_timestamp y \<le> t" using le by auto
    show "rl_timestamp y \<in> rl_timestamp ` set xs" using mem by auto
  qed
  moreover have "last (rev ?ys) = y" using ys by simp
  ultimately show ?thesis by simp
qed

lemma rateLimit_no_throw:
  assumes ip: "ip = (case keyGenerator config of Some g \<Rightarrow> g request
                                          | None \<Rightarrow> getClientIP request)"
    and entries: "entries = filter (\<lambda>r. rl_key r = ''rate_limit:'' @ ip
                                \<and> date_now env - windowMs config \<le> rl_timestamp r) rate_limits"
    and cleaned: "cleaned = (if entries \<noteq> [] \<and> delete_outcome env = Succeeds
                    then filter (\<lambda>r. \<not> (rl_key r = ''rate_limit:'' @ ip
                                \<and> rl_timestamp r < date_now env - windowMs config)) rate_limits
                    else rate_limits)"
    and ws: "valid_time (date_now env - windowMs config)"
    and sel: "select_outcome env = Succeeds"
    and del: "entries = [] \<or> delete_outcome env \<noteq> Throws"
  shows "rateLimit env request config rate_limits =
     (if maxRequests config \<le> int (length entries)
      then (\<lparr>success = False, remaining = 0,
              resetTime = (if entries = [] then date_now env else Min (rl_timestamp ` set entries))
                          + windowMs config,
              error = Some ''Rate limit exceeded''\<rparr>, cleaned)
      else if \<not> valid_time (date_now env)
      then (fail_open config (date_now_catch env) ''Rate limit system error'', cleaned)
      else (case insert_outcome env of
              Throws \<Rightarrow> (fail_open config (date_now_catch env) ''Rate limit system error'', cleaned)
            | ReturnsError \<Rightarrow> (fail_open config (date_now env) ''Rate limit update failed'', cleaned)
            | Succeeds \<Rightarrow>
                (\<lparr>success = True, remaining = maxRequests config - int (length entries) - 1,
                  resetTime = date_now env + windowMs config, error = None\<rparr>,
                 cleaned @ [\<lparr>rl_key = ''rate_limit:'' @ ip, rl_timestamp = date_now env,
                             rl_ip = (if ip = ''unknown'' then None else Some ip)\<rparr>])))"
proof -
  let ?ce = "rev (sort_key rl_timestamp entries)"
  have ne: "?ce \<noteq> [] \<longleftrightarrow> entries \<noteq> []" by (metis length_0_conv length_rev length_sort)
  have len: "length ?ce = length entries" by simp
  have rt: "(case ?ce of [] \<Rightarrow> date_now env + windowMs config
               | _ \<Rightarrow> rl_timestamp (last ?ce) + windowMs config)
            = (if entries = [] then date_now env else Min (rl_timestamp ` set entries))
              + windowMs config"
  proof (cases "entries = []")
    case True
    then show ?thesis by simp
  next
    case False
    with ne obtain z zs where "?ce = z # zs" by (cases ?ce) auto
    with False oldest_is_Min [OF False] show ?thesis by simp
  qed
  show ?thesis
    using sel del ws
    unfolding rateLimit_def Let_def ip [symmetric] entries [symmetric]
    apply (simp only: outcome.case ne len rt cleaned)
    apply (auto split: outcome.splits)
    done
qed

lemma rateLimit_throw:
  assumes ip: "ip = (case keyGenerator config of Some g \<Rightarrow> g request
                                          | None \<Rightarrow> getClientIP request)"
    and entries: "entries = filter (\<lambda>r. rl_key r = ''rate_limit:'' @ ip
                                \<and> date_now env - windowMs config \<le> rl_timestamp r) rate_limits"
    and bad: "\<not> valid_time (date_now env - windowMs config) \<or> select_outcome env \<noteq> Succeeds
              \<or> (entries \<noteq> [] \<and> delete_outcome env = Throws)"
  shows "success (fst (rateLimit env request config rate_limits))
       \<and> remaining (fst (rateLimit env request config rate_limits)) = maxRequests config - 1
       \<and> snd (rateLimit env request config rate_limits) = rate_limits"
proof -
  let ?ce = "rev (sort_key rl_timestamp entries)"
  have ne: "?ce \<noteq> [] \<longleftrightarrow> entries \<noteq> []" by (metis length_0_conv length_rev length_sort)
  show ?thesis
    using bad
    unfolding rateLimit_def Let_def ip [symmetric] entries [symmetric]
    apply (simp only: ne)
    apply (cases "select_outcome env")
      apply (auto simp: fail_open_def)
    done
qed

text \<open>
  Claim C9. Let \<open>entries\<close> be the stored rows with key \<open>rate_limit:<ip>\<close> and timestamp
  \<open>\<ge> now - W\<close>, and \<open>cleaned\<close> the table after the opportunistic delete. When nothing
  is thrown (\<open>now - W\<close> and \<open>now\<close> are time values, so that \<open>toISOString\<close> returns, and
  the delete does not throw) and the select and the insert succeed, the request is
  admitted iff the number of entries is below \<open>N\<close>, and exactly then one new row is
  appended. When nothing is thrown, the select succeeds and the number is \<open>\<ge> N\<close>, the
  request is rejected with \<open>remaining = 0\<close> and nothing is inserted; the reset time is
  the least timestamp among the entries plus \<open>W\<close> (\<open>now + W\<close> if there is no entry, which
  needs \<open>N \<le> 0\<close>), for a timestamp that is a time value and a sum that the code computes
  exactly. When the select fails or the insert fails, or an exception is thrown (by
  \<open>toISOString\<close>, the select, the delete or the insert), the request is admitted, with
  \<open>remaining = N - 1\<close> where the code computes this difference exactly.
\<close>

theorem rateLimit_spec:
  assumes ip: "ip = (case keyGenerator config of Some g \<Rightarrow> g request
                                          | None \<Rightarrow> getClientIP request)"
    and entries: "entries = filter (\<lambda>r. rl_key r = ''rate_limit:'' @ ip
                                \<and> date_now env - windowMs config \<le> rl_timestamp r) rate_limits"
    and cleaned: "cleaned = (if entries \<noteq> [] \<and> delete_outcome env = Succeeds
                    then filter (\<lambda>r. \<not> (rl_key r = ''rate_limit:'' @ ip
                                \<and> rl_timestamp r < date_now env - windowMs config)) rate_limits
                    else rate_limits)"
    and oldest: "oldest = (if entries = [] then date_now env else Min (rl_timestamp ` set entries))"
  shows "(valid_time (date_now env - windowMs config) \<and> valid_time (date_now env)
          \<and> select_outcome env = Succeeds \<and> (entries = [] \<or> delete_outcome env \<noteq> Throws)
          \<and> insert_outcome env = Succeeds \<longrightarrow>
            (success (fst (rateLimit env request config rate_limits))
               \<longleftrightarrow> int (length entries) < maxRequests config)
          \<and> snd (rateLimit env request config rate_limits) =
              (if int (length entries) < maxRequests config
               then cleaned @ [\<lparr>rl_key = ''rate_limit:'' @ ip, rl_timestamp = date_now env,
                                 rl_ip = (if ip = ''unknown'' then None else Some ip)\<rparr>]
               else cleaned))
       \<and> (valid_time (date_now env - windowMs config)
          \<and> select_outcome env = Succeeds \<and> (entries = [] \<or> delete_outcome env \<noteq> Throws)
          \<and> maxRequests config \<le> int (length entries) \<longrightarrow>
            \<not> success (fst (rateLimit env request config rate_limits))
          \<and> remaining (fst (rateLimit env request config rate_limits)) = 0
          \<and> snd (rateLimit env request config rate_limits) = cleaned
          \<and> (valid_time oldest \<and> exact_number (oldest + windowMs config) \<longrightarrow>
               resetTime (fst (rateLimit env request config rate_limits))
                 = oldest + windowMs config))
       \<and> (\<not> valid_time (date_now env - windowMs config) \<or> select_outcome env \<noteq> Succeeds
          \<or> (entries \<noteq> [] \<and> delete_outcome env = Throws)
          \<or> (int (length entries) < maxRequests config
              \<and> (\<not> valid_time (date_now env) \<or> insert_outcome env \<noteq> Succeeds)) \<longrightarrow>
            success (fst (rateLimit env request config rate_limits))
          \<and> (exact_number (maxRequests config - 1) \<longrightarrow>
               remaining (fst (rateLimit env request config rate_limits))
                 = maxRequests config - 1))"
proof (intro conjI impI)
  assume h: "valid_time (date_now env - windowMs config) \<and> valid_time (date_now env)
          \<and> select_outcome env = Succeeds \<and> (entries = [] \<or> delete_outcome env \<noteq> Throws)
          \<and> insert_outcome env = Succeeds"
  then have ws: "valid_time (date_now env - windowMs config)"
    and now: "valid_time (date_now env)"
    and sel: "select_outcome env = Succeeds"
    and del: "entries = [] \<or> delete_outcome env \<noteq> Throws"
    and ins: "insert_outcome env = Succeeds" by simp_all
  note r = rateLimit_no_throw [OF ip entries cleaned ws sel del]
  show "success (fst (rateLimit env request config rate_limits))
               \<longleftrightarrow> int (length entries) < maxRequests config"
    unfolding r using ins now by simp
  show "snd (rateLimit env request config rate_limits) =
              (if int (length entries) < maxRequests config
               then cleaned @ [\<lparr>rl_key = ''rate_limit:'' @ ip, rl_timestamp = date_now env,
                                 rl_ip = (if ip = ''unknown'' then None else Some ip)\<rparr>]
               else cleaned)"
    unfolding r using ins now by simp
next
  assume h: "valid_time (date_now env - windowMs config)
          \<and> select_outcome env = Succeeds \<and> (entries = [] \<or> delete_outcome env \<noteq> Throws)
          \<and> maxRequests config \<le> int (length entries)"
  then have ws: "valid_time (date_now env - windowMs config)"
    and sel: "select_outcome env = Succeeds"
    and del: "entries = [] \<or> delete_outcome env \<noteq> Throws"
    and full: "maxRequests config \<le> int (length entries)" by simp_all
  note r = rateLimit_no_throw [OF ip entries cleaned ws sel del]
  show "\<not> success (fst (rateLimit env request config rate_limits))"
    unfolding r using full by simp
  show "remaining (fst (rateLimit env request config rate_limits)) = 0"
    unfolding r using full by simp
  show "snd (rateLimit env request config rate_limits) = cleaned"
    unfolding r using full by simp
  show "resetTime (fst (rateLimit env request config rate_limits)) = oldest + windowMs config"
    unfolding r oldest using full by simp
next
  assume bad: "\<not> valid_time (date_now env - windowMs config) \<or> select_outcome env \<noteq> Succeeds
          \<or> (entries \<noteq> [] \<and> delete_outcome env = Throws)
          \<or> (int (length entries) < maxRequests config
              \<and> (\<not> valid_time (date_now env) \<or> insert_outcome env \<noteq> Succeeds))"
  have "success (fst (rateLimit env request config rate_limits))
      \<and> remaining (fst (rateLimit env request config rate_limits)) = maxRequests config - 1"
  proof (cases "\<not> valid_time (date_now env - windowMs config) \<or> select_outcome env \<noteq> Succeeds
                \<or> (entries \<noteq> [] \<and> delete_outcome env = Throws)")
    case True
    from rateLimit_throw [OF ip entries True] show ?thesis by simp
  next
    case False
    then have ws: "valid_time (date_now env - windowMs config)"
      and sel: "select_outcome env = Succeeds"
      and del: "entries = [] \<or> delete_outcome env \<noteq> Throws" by auto
    from False bad have ins: "int (length entries) < maxRequests config"
      "\<not> valid_time (date_now env) \<or> insert_outcome env \<noteq> Succeeds" by auto
    note r = rateLimit_no_throw [OF ip entries cleaned ws sel del]
    show ?thesis
      unfolding r using ins by (cases "insert_outcome env") (auto simp: fail_open_def)
  qed
  then show "success (fst (rateLimit env request config rate_limits))"
    and "remaining (fst (rateLimit env request config rate_limits)) = maxRequests config - 1"
    by simp_all
qed


lemma ip_example: "getClientIP request_example = ''1.2.3.4''"
  by (simp add: getClientIP_def request_example_def trim_def js_whitespace_def)

text \<open>
  The theorem at the sample table at time 100000 with a window of 60000: the key has two
  entries in the window (45000 and 50000) and one older row. With \<open>N = 2\<close> the request
  is rejected until 105000 and the older row is deleted; with \<open>N = 3\<close> it is admitted
  and recorded; with a failing select it is admitted with \<open>remaining = 1\<close>; and with a
  window of \<open>10^16\<close> milliseconds, where \<open>toISOString\<close> throws, it is admitted with
  \<open>remaining = 1\<close> although the key has three rows.
\<close>

theorem rateLimit_spec_witness:
  "\<not> success (fst (rateLimit (backend_example Succeeds Succeeds Succeeds) request_example
         \<lparr>maxRequests = 2, windowMs = 60000, keyGenerator = None\<rparr> rate_limits_example))
   \<and> remaining (fst (rateLimit (backend_example Succeeds Succeeds Succeeds) request_example
         \<lparr>maxRequests = 2, windowMs = 60000, keyGenerator = None\<rparr> rate_limits_example)) = 0
   \<and> resetTime (fst (rateLimit (backend_example Succeeds Succeeds Succeeds) request_example
         \<lparr>maxRequests = 2, windowMs = 60000, keyGenerator = None\<rparr> rate_limits_example)) = 105000
   \<and> snd (rateLimit (backend_example Succeeds Succeeds Succeeds) request_example
         \<lparr>maxRequests = 2, windowMs = 60000, keyGenerator = None\<rparr> rate_limits_example)
       = [sample_limit ''1.2.3.4'' 50000, sample_limit ''7.7.7.7'' 90000,
          sample_limit ''1.2.3.4'' 45000]
   \<and> success (fst (rateLimit (backend_example Succeeds Succeeds Succeeds) request_example
         \<lparr>maxRequests = 3, windowMs = 60000, keyGenerator = None\<rparr> rate_limits_example))
   \<and> snd (rateLimit (backend_example Succeeds Succeeds Succeeds) request_example
         \<lparr>maxRequests = 3, windowMs = 60000, keyGenerator = None\<rparr> rate_limits_example)
       = [sample_limit ''1.2.3.4'' 50000, sample_limit ''7.7.7.7'' 90000,
          sample_limit ''1.2.3.4'' 45000, sample_limit ''1.2.3.4'' 100000]
   \<and> success (fst (rateLimit (backend_example ReturnsError Succeeds Succeeds) request_example
         \<lparr>maxRequests = 2, windowMs = 60000, keyGenerator = None\<rparr> rate_limits_example))
   \<and> remaining (fst (rateLimit (backend_example ReturnsError Succeeds Succeeds) request_example
         \<lparr>maxRequests = 2, windowMs = 60000, keyGenerator = None\<rparr> rate_limits_example)) = 1
   \<and> success (fst (rateLimit (backend_example Succeeds Succeeds Succeeds) request_example
         \<lparr>maxRequests = 2, windowMs = 10000000000000000, keyGenerator = None\<rparr>
         rate_limits_example))
   \<and> remaining (fst (rateLimit (backend_example Succeeds Succeeds Succeeds) request_example
         \<lparr>maxRequests = 2, windowMs = 10000000000000000, keyGenerator = None\<rparr>
         rate_limits_example)) = 1"
  using rateLimit_spec [where env = "backend_example Succeeds Succeeds Succeeds"
      and config = "\<lparr>maxRequests = 2, windowMs = 60000, keyGenerator = None\<rparr>"
      and request = request_example and rate_limits = rate_limits_example,
      OF refl refl refl refl]
    rateLimit_spec [where env = "backend_example Succeeds Succeeds Succeeds"
      and config = "\<lparr>maxRequests = 3, windowMs = 60000, keyGenerator = None\<rparr>"
      and request = request_example and rate_limits = rate_limits_example,
      OF refl refl refl refl]
    rateLimit_spec [where env = "backend_example ReturnsError Succeeds Succeeds"
      and config = "\<lparr>maxRequests = 2, windowMs = 60000, keyGenerator = None\<rparr>"
      and request = request_example and rate_limits = rate_limits_example,
      OF refl refl refl refl]
    rateLimit_spec [where env = "backend_example Succeeds Succeeds Succeeds"
      and config = "\<lparr>maxRequests = 2, windowMs = 10000000000000000, keyGenerator = None\<rparr>"
      and request = request_example and rate_limits = rate_limits_example,
      OF refl refl refl refl]
  by (simp add: ip_example backend_example_def rate_limits_example_def sample_limit_def
        valid_time_def exact_number_def)

section \<open>Properties of the chunked cipher\<close>

lemma byte_of_word32:
  assumes "k \<le> 24"
  shows "(ucast (drop_bit k (of_nat i :: 32 word)) :: 8 word) = of_nat (i div 2 ^ k mod 256)"
proof -
  have "unat (ucast (drop_bit k (of_nat i :: 32 word)) :: 8 word)
          = take_bit 8 (drop_bit k (take_bit 32 i))"
    by (simp add: unsigned_ucast_eq unat_drop_bit_eq unsigned_of_nat)
  also have "\<dots> = take_bit 8 (take_bit (32 - k) (drop_bit k i))"
    by (simp add: drop_bit_take_bit)
  also have "\<dots> = take_bit 8 (drop_bit k i)"
  proof -
    from assms have "min 8 (32 - k) = 8" by simp
    then show ?thesis by (simp only: take_bit_take_bit)
  qed
  also have "\<dots> = i div 2 ^ k mod 256"
    by (simp add: take_bit_eq_mod drop_bit_eq_div)
  finally have "unat (ucast (drop_bit k (of_nat i :: 32 word)) :: 8 word) = i div 2 ^ k mod 256" .
  moreover have "unat (of_nat (i div 2 ^ k mod 256) :: 8 word) = i div 2 ^ k mod 256"
    by (simp add: unat_of_nat)
  ultimately show ?thesis by (simp add: word_unat_eq_iff)
qed

lemma be32_bytes:
  "ucast (drop_bit 24 (of_nat i :: 32 word)) = (of_nat (i div 2 ^ 24 mod 256) :: 8 word)"
  "ucast (drop_bit 16 (of_nat i :: 32 word)) = (of_nat (i div 2 ^ 16 mod 256) :: 8 word)"
  "ucast (drop_bit 8 (of_nat i :: 32 word)) = (of_nat (i div 2 ^ 8 mod 256) :: 8 word)"
  "ucast (of_nat i :: 32 word) = (of_nat (i mod 256) :: 8 word)"
  using byte_of_word32 [of 24 i] byte_of_word32 [of 16 i] byte_of_word32 [of 8 i]
    byte_of_word32 [of 0 i]
  by simp_all

lemma update4:
  assumes "12 \<le> length xs"
  shows "xs[8 := a, 9 := b, 10 := c, 11 := d] = take 8 xs @ [a, b, c, d] @ drop 12 xs"
proof (rule nth_equalityI)
  show "length (xs[8 := a, 9 := b, 10 := c, 11 := d]) = length (take 8 xs @ [a, b, c, d] @ drop 12 xs)"
    using assms by simp
next
  fix i assume "i < length (xs[8 := a, 9 := b, 10 := c, 11 := d])"
  then have i: "i < length xs" by simp
  consider "i < 8" | "i = 8" | "i = 9" | "i = 10" | "i = 11" | "12 \<le> i" by linarith
  then show "xs[8 := a, 9 := b, 10 := c, 11 := d] ! i = (take 8 xs @ [a, b, c, d] @ drop 12 xs) ! i"
  proof cases
    case 1 then show ?thesis using assms i by (simp add: nth_append)
  next
    case 2 then show ?thesis using assms i by (simp add: nth_append)
  next
    case 3 then show ?thesis using assms i by (simp add: nth_append)
  next
    case 4 then show ?thesis using assms i by (simp add: nth_append)
  next
    case 5 then show ?thesis using assms i by (simp add: nth_append)
  next
    case 6
    then obtain j where "i = 12 + j" using le_Suc_ex by blast
    then show ?thesis using assms i by (simp add: nth_append)
  qed
qed

lemma chunk_iv_spec:
  "chunk_iv ivBase i = (if 12 \<le> length ivBase then Some (spec_chunk_iv ivBase i) else None)"
proof (cases "12 \<le> length ivBase")
  case True
  then show ?thesis
    by (simp add: chunk_iv_def setUint32_def spec_chunk_iv_def be32_def be32_bytes update4)
next
  case False
  then show ?thesis by (simp add: chunk_iv_def setUint32_def)
qed


lemma decimal_value_snoc: "decimal_value (s @ [c]) = 10 * decimal_value s + (of_char c - 48)"
  by (simp add: decimal_value_def)

lemma decimal_value_decimal: "decimal_value (decimal n) = n"
proof (induction n rule: decimal.induct)
  case (1 n)
  show ?case
  proof (cases "n < 10")
    case True
    then show ?thesis by (subst decimal.simps) (simp add: decimal_value_def)
  next
    case False
    then have d: "decimal n = decimal (n div 10) @ [char_of (48 + n mod 10)]"
      by (subst decimal.simps) simp
    have "(48 + n mod 10) mod 256 = 48 + n mod 10" by simp
    then have "of_char (char_of (48 + n mod 10)) = 48 + n mod 10" by (simp only: of_char_of)
    with 1 [OF False] show ?thesis by (simp add: d decimal_value_snoc)
  qed
qed

lemma decimal_inj: "decimal n = decimal m \<Longrightarrow> n = m"
  by (metis decimal_value_decimal)

lemma encode_inj: "encode s = encode t \<Longrightarrow> s = t"
proof -
  have u: "\<And>c. unat (of_nat (of_char c) :: 8 word) = of_char c"
    by (simp add: unat_of_nat)
  have "inj (\<lambda>c. of_nat (of_char c) :: 8 word)"
  proof (rule injI)
    fix c d :: char
    assume "(of_nat (of_char c) :: 8 word) = of_nat (of_char d)"
    then have "unat (of_nat (of_char c) :: 8 word) = unat (of_nat (of_char d) :: 8 word)" by simp
    then have "(of_char c :: nat) = of_char d" by (simp only: u)
    then show "c = d" by simp
  qed
  then show "encode s = encode t \<Longrightarrow> s = t"
    unfolding encode_def by (simp add: inj_map_eq_map)
qed

lemma chunk_aad_inj: "chunk_aad i n = chunk_aad j n \<Longrightarrow> i = j"
proof -
  assume "chunk_aad i n = chunk_aad j n"
  then have "''chunk:'' @ decimal i @ ''/'' @ decimal n
             = ''chunk:'' @ decimal j @ ''/'' @ decimal n"
    unfolding chunk_aad_def by (rule encode_inj)
  then have "decimal i = decimal j" by simp
  then show "i = j" by (rule decimal_inj)
qed

text \<open>
  Claim C3. For a base iv of at least 12 bytes (it has 12), a chunk index \<open>i\<close> and a
  chunk count: the encryption of chunk \<open>i\<close> in \<open>uploadChunk\<close> and its decryption in
  \<open>downloadAndDecryptChunk\<close> both run AES-GCM with the iv that is \<open>iv_base\<close> with bytes
  8..12 replaced by \<open>i\<close> as a 32-bit big-endian integer, and with the additional data
  that is the ASCII text \<open>chunk:<i>/<total>\<close>, the two numbers in decimal.
\<close>

theorem chunk_iv_and_aad:
  assumes "12 \<le> length ivBase"
  shows "uploadChunk subtle upload_ok key ivBase chunkSize totalChunks blob i =
           (if upload_ok i
            then Inr (i, encrypt subtle key (spec_chunk_iv ivBase i)
                           (encode (''chunk:'' @ decimal i @ ''/'' @ decimal totalChunks))
                           (file_slice blob (i * chunkSize) (min (length blob) (i * chunkSize + chunkSize))))
            else Inl (UploadFailed i))
       \<and> downloadAndDecryptChunk subtle fetch key ivBase totalChunks i =
           (case fetch i of
              None \<Rightarrow> Inl (FetchFailed i)
            | Some encryptedChunk \<Rightarrow>
                (case decrypt subtle key (spec_chunk_iv ivBase i)
                        (encode (''chunk:'' @ decimal i @ ''/'' @ decimal totalChunks))
                        encryptedChunk of
                   None \<Rightarrow> Inl OperationError
                 | Some decryptedChunk \<Rightarrow> Inr decryptedChunk))
       \<and> decimal_value (decimal i) = i \<and> decimal_value (decimal totalChunks) = totalChunks"
  using assms
  by (simp add: uploadChunk_def downloadAndDecryptChunk_def chunk_iv_spec chunk_aad_def Let_def
        decimal_value_decimal split: option.splits)


text \<open>The theorem at chunk 1 of 3 of the sample file, with chunks of 2 bytes.\<close>

theorem chunk_iv_and_aad_witness:
  "uploadChunk toy_subtle (\<lambda>_. True) sample_key sample_iv 2 3 sample_plain 1
     = Inr (1, toy_encrypt sample_key [9, 9, 9, 9, 9, 9, 9, 9, 0, 0, 0, 1]
                 (encode ''chunk:1/3'') [3, 4])
   \<and> downloadAndDecryptChunk toy_subtle (\<lambda>_. Some [7]) sample_key sample_iv 3 1
     = (case toy_decrypt sample_key [9, 9, 9, 9, 9, 9, 9, 9, 0, 0, 0, 1]
               (encode ''chunk:1/3'') [7] of
          None \<Rightarrow> Inl OperationError | Some decryptedChunk \<Rightarrow> Inr decryptedChunk)"
proof -
  have l: "12 \<le> length sample_iv" by (simp add: sample_iv_def)
  have iv: "spec_chunk_iv sample_iv 1 = [9, 9, 9, 9, 9, 9, 9, 9, 0, 0, 0, 1]"
    by (simp add: spec_chunk_iv_def be32_def sample_iv_def)
  have d: "decimal 1 = ''1''" "decimal 3 = ''3''" by code_simp+
  have p: "file_slice sample_plain (1 * 2) (min (length sample_plain) (1 * 2 + 2)) = [3, 4]"
    by code_simp
  show ?thesis
    using chunk_iv_and_aad [OF l, where subtle = toy_subtle and upload_ok = "\<lambda>_. True"
        and key = sample_key and chunkSize = 2 and totalChunks = 3 and blob = sample_plain
        and i = 1 and fetch = "\<lambda>_. Some [7]"]
    unfolding iv d p by (simp add: toy_subtle_def)
qed

lemma all_returned:
  "(\<And>x. x \<in> set xs \<Longrightarrow> f x = Inr (g x)) \<Longrightarrow>
     thrown (map f xs) = [] \<and> returned (map f xs) = map g xs"
  by (induction xs) simp_all

lemma run_workers_map_Inr:
  assumes "\<And>x. x \<in> set xs \<Longrightarrow> f x = Inr (g x)"
  shows "run_workers workers timing (map f xs) = Inr (map g xs)"
  using all_returned [of xs f g, OF assms] by (simp add: run_workers_def)

lemma set_thrown: "set (thrown tasks) = {e. Inl e \<in> set tasks}"
  by (induction tasks rule: thrown.induct) auto

lemma thrown_Nil_returned: "thrown tasks = [] \<Longrightarrow> map Inr (returned tasks) = tasks"
  by (induction tasks rule: thrown.induct) simp_all

lemma run_workers_cases:
  assumes "0 < workers \<or> tasks = []"
  shows "(thrown tasks = [] \<and> run_workers workers timing tasks = Inr (returned tasks))
       \<or> (\<exists>e. Inl e \<in> set tasks \<and> run_workers workers timing tasks = Inl e)"
proof (cases "thrown tasks")
  case Nil
  then show ?thesis by (simp add: run_workers_def)
next
  case (Cons e es)
  with assms have w: "0 < workers" by auto
  then obtain c cs where t: "take workers (thrown tasks) = c # cs"
    using Cons by (cases workers) simp_all
  let ?e = "(c # cs) ! (timing mod length (c # cs))"
  have "?e \<in> set (c # cs)" by (rule nth_mem) simp
  with t have "?e \<in> set (take workers (thrown tasks))" by simp
  then have "?e \<in> set (thrown tasks)" by (rule in_set_takeD)
  then have "Inl ?e \<in> set tasks" by (simp add: set_thrown)
  moreover have "run_workers workers timing tasks = Inl ?e" by (simp add: run_workers_def t)
  ultimately show ?thesis by blast
qed

lemma slice_chunk:
  "file_slice blob (i * S) (min (length blob) (i * S + S)) = take S (drop (i * S) blob)"
proof (cases "i * S \<le> length blob")
  case True
  let ?ys = "drop (i * S) blob"
  from True have "min (length blob) (i * S + S) - i * S = min (length ?ys) S"
    by (auto simp: min_def)
  moreover have "take (min (length ?ys) S) ?ys = take S ?ys"
    by (cases "length ?ys \<le> S") (simp_all add: min_def)
  ultimately show ?thesis by (simp only: file_slice_def)
next
  case False
  then show ?thesis by (simp add: file_slice_def)
qed

lemma concat_chunks: "concat (map (\<lambda>i. take S (drop (i * S) xs)) [0..<k]) = take (k * S) xs"
proof (induction k)
  case 0
  then show ?case by simp
next
  case (Suc k)
  have "take (k * S + S) xs = take (k * S) xs @ take S (drop (k * S) xs)" by (rule take_add)
  with Suc show ?case by (simp add: add.commute)
qed

lemma ceil_div_covers: "0 < S \<Longrightarrow> n \<le> ceil_div n S * S"
proof -
  assume S: "0 < S"
  have "(n + S - 1) mod S < S" using S by simp
  moreover have "(n + S - 1) div S * S + (n + S - 1) mod S = n + S - 1" by simp
  ultimately show ?thesis unfolding ceil_div_def by linarith
qed

lemma concat_slices:
  assumes "0 < S"
  shows "concat (map (\<lambda>i. file_slice blob (i * S) (min (length blob) (i * S + S)))
                   [0..<ceil_div (length blob) S]) = blob"
  using ceil_div_covers [OF assms, of "length blob"]
  by (simp add: slice_chunk concat_chunks)

lemma map_of_indexed: "i < n \<Longrightarrow> map_of (map (\<lambda>i. (i, c i)) [0..<n]) i = Some (c i)"
proof -
  assume "i < n"
  then have "(i, c i) \<in> set (map (\<lambda>i. (i, c i)) [0..<n])" by simp
  moreover have "distinct (map fst (map (\<lambda>i. (i, c i)) [0..<n]))" by (simp add: comp_def)
  ultimately show ?thesis by (rule map_of_is_SomeI [rotated])
qed

lemma getOptimalChunkSize_pos: "0 < getOptimalChunkSize n"
  by (simp add: getOptimalChunkSize_def Let_def)

lemma encryptChunks_eq:
  assumes key: "importKey subtle rawKey = Some key"
    and iv: "12 \<le> length ivBase"
    and up: "\<And>i. upload_ok i"
  shows "encryptChunks subtle upload_ok timing rawKey ivBase S blob =
           Inr (map (\<lambda>i. (i, encrypt subtle key (spec_chunk_iv ivBase i)
                              (chunk_aad i (ceil_div (length blob) S))
                              (file_slice blob (i * S) (min (length blob) (i * S + S)))))
                  [0..<ceil_div (length blob) S])"
proof -
  have "\<And>i. uploadChunk subtle upload_ok key ivBase S (ceil_div (length blob) S) blob i =
           Inr (i, encrypt subtle key (spec_chunk_iv ivBase i)
                              (chunk_aad i (ceil_div (length blob) S))
                              (file_slice blob (i * S) (min (length blob) (i * S + S))))"
    using iv up by (simp add: uploadChunk_def chunk_iv_spec Let_def)
  then show ?thesis
    unfolding encryptChunks_def key Let_def option.case
    by (intro run_workers_map_Inr) simp
qed

lemma chunked_roundtrip:
  assumes key: "importKey subtle rawKey = Some key"
    and correct: "\<And>iv aad m. decrypt subtle key iv aad (encrypt subtle key iv aad m) = Some m"
    and iv: "12 \<le> length ivBase"
    and S: "0 < S"
    and up: "\<And>i. upload_ok i"
  shows "\<exists>chunks. encryptChunks subtle upload_ok timing rawKey ivBase S blob = Inr chunks
           \<and> length chunks = ceil_div (length blob) S
           \<and> decryptChunkedFile subtle (map_of chunks) timing' rawKey ivBase (length chunks)
               = Inr blob"
proof -
  let ?n = "ceil_div (length blob) S"
  let ?pt = "\<lambda>i. file_slice blob (i * S) (min (length blob) (i * S + S))"
  let ?c = "\<lambda>i. encrypt subtle key (spec_chunk_iv ivBase i) (chunk_aad i ?n) (?pt i)"
  let ?chunks = "map (\<lambda>i. (i, ?c i)) [0..<?n]"
  have e: "encryptChunks subtle upload_ok timing rawKey ivBase S blob = Inr ?chunks"
    using key iv up by (rule encryptChunks_eq)
  have len: "length ?chunks = ?n" by simp
  have dl: "\<And>i. i \<in> set [0..<?n] \<Longrightarrow>
              downloadAndDecryptChunk subtle (map_of ?chunks) key ivBase ?n i = Inr (?pt i)"
  proof -
    fix i assume "i \<in> set [0..<?n]"
    then have "i < ?n" by simp
    then have "map_of ?chunks i = Some (?c i)" by (rule map_of_indexed)
    then show "downloadAndDecryptChunk subtle (map_of ?chunks) key ivBase ?n i = Inr (?pt i)"
      using iv by (simp add: downloadAndDecryptChunk_def chunk_iv_spec correct)
  qed
  have "run_workers (min maxConcurrentDownloads ?n) timing'
          (map (downloadAndDecryptChunk subtle (map_of ?chunks) key ivBase ?n) [0..<?n])
          = Inr (map ?pt [0..<?n])"
    using dl by (rule run_workers_map_Inr)
  then have "decryptChunkedFile subtle (map_of ?chunks) timing' rawKey ivBase ?n = Inr blob"
    unfolding decryptChunkedFile_def key option.case
    by (simp add: concat_slices [OF S])
  with e len show ?thesis by (metis (lifting))
qed


lemma toy_header_prefix: "toy_header a @ x = toy_header b @ y \<Longrightarrow> a = b \<and> x = y"
proof (induction a arbitrary: b)
  case Nil
  then show ?case by (cases b) simp_all
next
  case (Cons c a)
  then show ?case by (cases b) auto
qed

lemma toy_correct: "toy_decrypt key iv aad (toy_encrypt key iv aad m) = Some m"
  by (simp add: toy_decrypt_def toy_encrypt_def)

lemma sample_key_imported: "importKey toy_subtle sample_key = Some sample_key"
  by (simp add: toy_subtle_def sample_key_def)

lemma sample_chunks:
  "encryptChunks toy_subtle (\<lambda>_. True) 0 sample_key sample_iv 2 sample_plain
     = Inr (projr (encryptChunks toy_subtle (\<lambda>_. True) 0 sample_key sample_iv 2 sample_plain))"
  "length (projr (encryptChunks toy_subtle (\<lambda>_. True) 0 sample_key sample_iv 2 sample_plain)) = 3"
proof -
  have l: "12 \<le> length sample_iv" by (simp add: sample_iv_def)
  have n: "ceil_div (length sample_plain) 2 = 3" by code_simp
  note e = encryptChunks_eq [OF sample_key_imported l, where upload_ok = "\<lambda>_. True"
      and timing = 0 and S = 2 and blob = sample_plain]
  show "encryptChunks toy_subtle (\<lambda>_. True) 0 sample_key sample_iv 2 sample_plain
     = Inr (projr (encryptChunks toy_subtle (\<lambda>_. True) 0 sample_key sample_iv 2 sample_plain))"
    using e by simp
  show "length (projr (encryptChunks toy_subtle (\<lambda>_. True) 0 sample_key sample_iv 2 sample_plain)) = 3"
    using e n by simp
qed

text \<open>
  Claim C4. For every raw key that \<open>importKey\<close> accepts, every plaintext, every chunk
  size \<open>S > 0\<close> and every base iv (of at least 12 bytes), when AES-GCM decrypts what it
  encrypted and every upload succeeds: whatever the timing of the workers, chunked
  encryption returns the parts \<open>0 .. ceil(size / S) - 1\<close>, and chunked decryption of
  these parts, fetched by index with the same count, returns exactly the plaintext. The
  same holds for \<open>encryptAndUploadInChunks\<close> itself, whose chunk size is
  \<open>getOptimalChunkSize\<close>.
\<close>

theorem chunked_roundtrip_spec:
  assumes key: "importKey subtle rawKey = Some key"
    and correct: "\<And>iv aad m. decrypt subtle key iv aad (encrypt subtle key iv aad m) = Some m"
    and iv: "12 \<le> length ivBase"
    and S: "0 < S"
    and up: "\<And>i. upload_ok i"
  shows "(\<exists>chunks. encryptChunks subtle upload_ok timing rawKey ivBase S blob = Inr chunks
           \<and> length chunks = ceil_div (length blob) S
           \<and> decryptChunkedFile subtle (map_of chunks) timing' rawKey ivBase (length chunks)
               = Inr blob)
       \<and> (\<exists>chunks. encryptAndUploadInChunks subtle upload_ok timing rawKey ivBase blob = Inr chunks
           \<and> decryptChunkedFile subtle (map_of chunks) timing' rawKey ivBase (length chunks)
               = Inr blob)"
proof
  show "\<exists>chunks. encryptChunks subtle upload_ok timing rawKey ivBase S blob = Inr chunks
           \<and> length chunks = ceil_div (length blob) S
           \<and> decryptChunkedFile subtle (map_of chunks) timing' rawKey ivBase (length chunks)
               = Inr blob"
    using key correct iv S up by (rule chunked_roundtrip)
  have "\<exists>chunks. encryptChunks subtle upload_ok timing rawKey ivBase
                    (getOptimalChunkSize (length blob)) blob = Inr chunks
           \<and> length chunks = ceil_div (length blob) (getOptimalChunkSize (length blob))
           \<and> decryptChunkedFile subtle (map_of chunks) timing' rawKey ivBase (length chunks)
               = Inr blob"
    using key correct iv getOptimalChunkSize_pos up by (rule chunked_roundtrip)
  then show "\<exists>chunks. encryptAndUploadInChunks subtle upload_ok timing rawKey ivBase blob
                = Inr chunks
           \<and> decryptChunkedFile subtle (map_of chunks) timing' rawKey ivBase (length chunks)
               = Inr blob"
    unfolding encryptAndUploadInChunks_def by blast
qed

text \<open>The theorem at the sample file of 5 bytes in chunks of 2 bytes.\<close>

theorem chunked_roundtrip_spec_witness:
  "decryptChunkedFile toy_subtle
     (map_of (projr (encryptChunks toy_subtle (\<lambda>_. True) 0 sample_key sample_iv 2 sample_plain)))
     0 sample_key sample_iv 3 = Inr sample_plain"
proof -
  have l: "12 \<le> length sample_iv" by (simp add: sample_iv_def)
  have c: "\<And>iv aad m. decrypt toy_subtle sample_key iv aad (encrypt toy_subtle sample_key iv aad m) = Some m"
    by (simp add: toy_subtle_def toy_correct)
  have S: "0 < (2::nat)" by simp
  from chunked_roundtrip_spec [OF sample_key_imported c l S, where upload_ok = "\<lambda>_. True"
      and blob = sample_plain and timing = 0 and timing' = 0]
  obtain chunks where
    "encryptChunks toy_subtle (\<lambda>_. True) 0 sample_key sample_iv 2 sample_plain = Inr chunks"
    "decryptChunkedFile toy_subtle (map_of chunks) 0 sample_key sample_iv (length chunks)
       = Inr sample_plain"
    by auto
  then show ?thesis using sample_chunks(2) by simp
qed

subsection \<open>Exchanged parts\<close>

text \<open>
  What the code contributes to the detection of exchanged parts. The additional data of
  two distinct chunks of a file differ (\<open>chunk_aad_inj\<close> above), and a part that AES-GCM
  rejects makes the whole decryption fail: for the parts that chunked encryption has
  stored and two distinct indices below their number, chunked decryption from the store
  in which the two parts are exchanged fails with the authentication error whatever the
  timing, unless AES-GCM accepts each of the two parts under the iv and the additional
  data of the other's position. That AES-GCM does not is its authenticity, which holds
  for a key chosen at random up to a probability of the order of \<open>2^-128\<close>, and not for
  every key, iv and text: decryption with the right additional data succeeds and a
  ciphertext is 16 bytes longer than its text, so there are fewer ciphertexts of a length
  than additional data, and some ciphertext verifies under two of them.
\<close>

lemma exchanged_parts:
  assumes key: "importKey subtle rawKey = Some key"
    and iv: "12 \<le> length ivBase"
    and up: "\<And>i. upload_ok i"
    and enc: "encryptChunks subtle upload_ok timing rawKey ivBase S blob = Inr chunks"
    and ij: "i < length chunks" "j < length chunks" "i \<noteq> j"
  shows "chunk_aad i (length chunks) \<noteq> chunk_aad j (length chunks)
       \<and> (decryptChunkedFile subtle ((map_of chunks)(i := map_of chunks j, j := map_of chunks i))
            timing' rawKey ivBase (length chunks) = Inl OperationError
          \<or> (\<exists>ci cj. map_of chunks i = Some ci \<and> map_of chunks j = Some cj
                \<and> decrypt subtle key (spec_chunk_iv ivBase i) (chunk_aad i (length chunks)) cj
                    \<noteq> None
                \<and> decrypt subtle key (spec_chunk_iv ivBase j) (chunk_aad j (length chunks)) ci
                    \<noteq> None))"
proof
  show "chunk_aad i (length chunks) \<noteq> chunk_aad j (length chunks)"
    using ij(3) chunk_aad_inj by blast
next
  let ?n = "ceil_div (length blob) S"
  let ?pt = "\<lambda>i. file_slice blob (i * S) (min (length blob) (i * S + S))"
  let ?c = "\<lambda>i. encrypt subtle key (spec_chunk_iv ivBase i) (chunk_aad i ?n) (?pt i)"
  let ?fetch = "(map_of chunks)(i := map_of chunks j, j := map_of chunks i)"
  let ?tasks = "map (downloadAndDecryptChunk subtle ?fetch key ivBase ?n) [0..<?n]"
  have "encryptChunks subtle upload_ok timing rawKey ivBase S blob
          = Inr (map (\<lambda>i. (i, ?c i)) [0..<?n])"
    using key iv up by (rule encryptChunks_eq)
  with enc have chunks: "chunks = map (\<lambda>i. (i, ?c i)) [0..<?n]" by simp
  then have len: "length chunks = ?n" by simp
  have stored: "\<And>k. k < ?n \<Longrightarrow> map_of chunks k = Some (?c k)"
    unfolding chunks by (rule map_of_indexed)
  have fetched: "\<And>k. k < ?n \<Longrightarrow> \<exists>c. ?fetch k = Some c"
    using ij stored unfolding len by auto
  have task: "\<And>k. k < ?n \<Longrightarrow>
      downloadAndDecryptChunk subtle ?fetch key ivBase ?n k =
        (case decrypt subtle key (spec_chunk_iv ivBase k) (chunk_aad k ?n) (the (?fetch k)) of
           None \<Rightarrow> Inl OperationError | Some m \<Rightarrow> Inr m)"
  proof -
    fix k assume "k < ?n"
    with fetched obtain c where "?fetch k = Some c" by blast
    then show "downloadAndDecryptChunk subtle ?fetch key ivBase ?n k =
        (case decrypt subtle key (spec_chunk_iv ivBase k) (chunk_aad k ?n) (the (?fetch k)) of
           None \<Rightarrow> Inl OperationError | Some m \<Rightarrow> Inr m)"
      using iv by (simp add: downloadAndDecryptChunk_def chunk_iv_spec Let_def)
  qed
  have errs: "\<And>e. Inl e \<in> set ?tasks \<Longrightarrow> e = OperationError"
  proof -
    fix e assume "Inl e \<in> set ?tasks"
    then obtain k where k: "k < ?n"
      and "downloadAndDecryptChunk subtle ?fetch key ivBase ?n k = Inl e" by auto
    with task [OF k] show "e = OperationError" by (simp split: option.splits)
  qed
  have w: "0 < min maxConcurrentDownloads ?n \<or> ?tasks = []"
    by (cases "?n") (simp_all add: maxConcurrentDownloads_def)
  from run_workers_cases [OF w, of timing']
  show "decryptChunkedFile subtle ?fetch timing' rawKey ivBase (length chunks) = Inl OperationError
          \<or> (\<exists>ci cj. map_of chunks i = Some ci \<and> map_of chunks j = Some cj
                \<and> decrypt subtle key (spec_chunk_iv ivBase i) (chunk_aad i (length chunks)) cj
                    \<noteq> None
                \<and> decrypt subtle key (spec_chunk_iv ivBase j) (chunk_aad j (length chunks)) ci
                    \<noteq> None)"
  proof
    assume ok: "thrown ?tasks = []
      \<and> run_workers (min maxConcurrentDownloads ?n) timing' ?tasks = Inr (returned ?tasks)"
    have none: "\<And>k. k < ?n \<Longrightarrow>
        decrypt subtle key (spec_chunk_iv ivBase k) (chunk_aad k ?n) (the (?fetch k)) \<noteq> None"
    proof
      fix k assume k: "k < ?n"
        and "decrypt subtle key (spec_chunk_iv ivBase k) (chunk_aad k ?n) (the (?fetch k)) = None"
      with task [OF k] have "downloadAndDecryptChunk subtle ?fetch key ivBase ?n k
          = Inl OperationError" by simp
      with k have "Inl OperationError \<in> set ?tasks" by force
      then have "OperationError \<in> set (thrown ?tasks)" by (simp only: set_thrown mem_Collect_eq)
      with ok show False by simp
    qed
    have fi: "?fetch i = Some (?c j)" and fj: "?fetch j = Some (?c i)"
      using ij stored unfolding len by auto
    from none [of i] none [of j] ij(1,2) fi fj
    have "decrypt subtle key (spec_chunk_iv ivBase i) (chunk_aad i ?n) (?c j) \<noteq> None"
      and "decrypt subtle key (spec_chunk_iv ivBase j) (chunk_aad j ?n) (?c i) \<noteq> None"
      unfolding len by simp_all
    moreover have "map_of chunks i = Some (?c i)" "map_of chunks j = Some (?c j)"
      using ij(1,2) stored unfolding len by simp_all
    ultimately show ?thesis unfolding len by blast
  next
    assume "\<exists>e. Inl e \<in> set ?tasks
      \<and> run_workers (min maxConcurrentDownloads ?n) timing' ?tasks = Inl e"
    then obtain e where "Inl e \<in> set ?tasks"
      and r: "run_workers (min maxConcurrentDownloads ?n) timing' ?tasks = Inl e" by blast
    with errs have "e = OperationError" by blast
    with r show ?thesis
      unfolding decryptChunkedFile_def key option.case len by simp
  qed
qed

section \<open>Properties of the codec and of the header value\<close>

lemma those_map_None: "\<exists>x\<in>set xs. f x = None \<Longrightarrow> those (map f xs) = None"
  by (induction xs) (auto split: option.splits)

lemma mem_remove_padding:
  assumes "x \<in> set data" and "x \<noteq> 0x3D"
  shows "x \<in> set (remove_padding data)"
proof -
  have d: "data = rev (rev data)" by simp
  show ?thesis
  proof (cases "rev data")
    case Nil
    then show ?thesis using assms by (simp add: remove_padding_def)
  next
    case (Cons a as)
    note outer = Cons
    show ?thesis
    proof (cases as)
      case Nil
      with outer have "set data = {a}" by (metis d list.set(1) list.simps(15) set_rev)
      with assms outer Nil show ?thesis by (simp add: remove_padding_def)
    next
      case (Cons b rest)
      with outer have "set data = {a, b} \<union> set rest"
        by (metis d Un_insert_left list.simps(15) set_rev sup_bot_left)
      with assms outer Cons show ?thesis by (auto simp: remove_padding_def)
    qed
  qed
qed

lemma base64_value_None:
  "\<not> url_safe c \<Longrightarrow> c \<noteq> 0x2B \<Longrightarrow> c \<noteq> 0x2F \<Longrightarrow> base64_value c = None"
  by (simp add: url_safe_def base64_value_def)

lemma atob_rejects:
  assumes "c \<in> set s" and "base64_value c = None" and "c \<noteq> 0x3D" and "\<not> ascii_whitespace c"
  shows "atob s = None"
proof -
  let ?d0 = "filter (\<lambda>c. \<not> ascii_whitespace c) s"
  let ?d1 = "if length ?d0 mod 4 = 0 then remove_padding ?d0 else ?d0"
  from assms have "c \<in> set ?d0" by simp
  then have "c \<in> set ?d1" using assms(3) by (simp add: mem_remove_padding)
  with assms(2) have "those (map base64_value ?d1) = None"
    by (intro those_map_None) blast
  then show ?thesis by (simp add: atob_def Let_def)
qed

text \<open>
  Claim C8, as amended. \<open>fromB64u\<close> rejects every input that contains a character other
  than the URL-safe alphabet, \<open>+\<close>, \<open>/\<close>, \<open>=\<close> and the ASCII whitespace (TAB, LF, FF, CR,
  space).
\<close>

theorem fromB64u_rejects:
  assumes "c \<in> set s" and "\<not> url_safe c"
    and "c \<noteq> 0x2B" and "c \<noteq> 0x2F" and "c \<noteq> 0x3D" and "\<not> ascii_whitespace c"
  shows "fromB64u s = None"
proof -
  let ?b = "replace_all 0x5F 0x2F (replace_all 0x2D 0x2B s)"
  from assms(2) have "c \<noteq> 0x2D" "c \<noteq> 0x5F" by (auto simp: url_safe_def)
  with assms(1) have "c \<in> set ?b" by (force simp: replace_all_def)
  then have "c \<in> set (?b @ drop ((length ?b + 3) mod 4) (js ''===''))" by simp
  moreover have "base64_value c = None" using assms(2,3,4) by (rule base64_value_None)
  ultimately have "atob (?b @ drop ((length ?b + 3) mod 4) (js ''==='')) = None"
    using assms(5,6) by (rule atob_rejects)
  then show ?thesis by (simp add: fromB64u_def Let_def)
qed

text \<open>
  Claim C8 as stated fails: \<open>+\<close> is outside the URL-safe alphabet, and \<open>fromB64u\<close>
  decodes \<open>ab+/\<close> to three bytes.
\<close>

theorem fromB64u_accepts_plus_slash:
  "\<not> url_safe 0x2B \<and> 0x2B \<in> set (js ''ab+/'') \<and> fromB64u (js ''ab+/'') = Some [105, 191, 191]"
  by code_simp

text \<open>The theorem at \<open>a*bc\<close>.\<close>

theorem fromB64u_rejects_witness:
  "fromB64u (js ''a*bc'') = None"
proof -
  have h: "0x2A \<in> set (js ''a*bc'')" "\<not> url_safe 0x2A" "\<not> ascii_whitespace 0x2A"
    by code_simp+
  show ?thesis by (rule fromB64u_rejects [OF h(1) h(2) _ _ _ h(3)]) simp_all
qed


lemma unreserved_not_surrogate:
  "uri_unreserved c \<Longrightarrow> \<not> lead_surrogate c \<and> \<not> trail_surrogate c"
  unfolding uri_unreserved_def lead_surrogate_def trail_surrogate_def word_le_nat_alt
  by (elim disjE) auto

lemma lead_not_trail: "lead_surrogate c \<Longrightarrow> \<not> trail_surrogate c"
  unfolding lead_surrogate_def trail_surrogate_def word_le_nat_alt by auto

lemma encodeURIComponent_throws: "encodeURIComponent s = None \<longleftrightarrow> \<not> well_formed s"
proof (induction s rule: well_formed.induct)
  case 1
  then show ?case by simp
next
  case (2 c)
  then show ?case
    using unreserved_not_surrogate [of c] by auto
next
  case (3 c d ds)
  show ?case
  proof (cases "uri_unreserved c")
    case True
    with unreserved_not_surrogate [of c] 3 show ?thesis by simp
  next
    case False
    note nu = False
    show ?thesis
    proof (cases "lead_surrogate c")
      case True
      with nu lead_not_trail [of c] 3 show ?thesis by simp
    next
      case False
      with nu 3 show ?thesis by simp
    qed
  qed
qed

lemma safeAscii_clean: "c \<in> set (safeAscii fileName) \<Longrightarrow> \<not> control_char c \<and> c \<noteq> 0x22"
proof -
  assume c: "c \<in> set (safeAscii fileName)"
  show ?thesis
  proof (cases "filter (\<lambda>c. c \<noteq> 0x22) (filter (\<lambda>c. \<not> control_char c) fileName) = []")
    case True
    with c have "c \<in> set (js ''file'')" by (simp add: safeAscii_def)
    then have "c = 0x66 \<or> c = 0x69 \<or> c = 0x6C \<or> c = 0x65" by (auto simp: js_def)
    then show ?thesis by (auto simp: control_char_def)
  next
    case False
    with c show ?thesis by (auto simp: safeAscii_def Let_def)
  qed
qed

text \<open>
  Claim C10, as amended. \<open>contentDispositionAttachment\<close> throws exactly when the name is
  not well formed (\<open>encodeURIComponent\<close> throws). For every well-formed name it returns
  \<open>attachment; filename="S"; filename*=UTF-8''E\<close> with \<open>E\<close> the encoded name and \<open>S\<close> the
  sanitized name. For every name, \<open>S\<close> contains no control character (0x00-0x1F, 0x7F)
  and no double quote; it is \<open>file\<close> when nothing is left of the name, and otherwise the
  name without its control characters and double quotes.
\<close>

theorem contentDispositionAttachment_spec:
  "(contentDispositionAttachment fileName = None \<longleftrightarrow> \<not> well_formed fileName)
   \<and> (well_formed fileName \<longrightarrow>
        (\<exists>E. encodeURIComponent fileName = Some E
           \<and> contentDispositionAttachment fileName =
               Some (js ''attachment; filename='' @ [0x22] @ safeAscii fileName @ [0x22]
                     @ js ''; filename*=UTF-8'' @ [0x27, 0x27] @ E)))
   \<and> (\<forall>c\<in>set (safeAscii fileName). \<not> control_char c \<and> c \<noteq> 0x22)
   \<and> (filter (\<lambda>c. c \<noteq> 0x22) (filter (\<lambda>c. \<not> control_char c) fileName) = []
        \<longrightarrow> safeAscii fileName = js ''file'')
   \<and> (filter (\<lambda>c. c \<noteq> 0x22) (filter (\<lambda>c. \<not> control_char c) fileName) \<noteq> []
        \<longrightarrow> safeAscii fileName = filter (\<lambda>c. c \<noteq> 0x22) (filter (\<lambda>c. \<not> control_char c) fileName))"
proof (intro conjI impI ballI)
  show "contentDispositionAttachment fileName = None \<longleftrightarrow> \<not> well_formed fileName"
    using encodeURIComponent_throws [of fileName]
    by (auto simp: contentDispositionAttachment_def split: option.splits)
next
  assume "well_formed fileName"
  then obtain E where "encodeURIComponent fileName = Some E"
    using encodeURIComponent_throws [of fileName] by auto
  then show "\<exists>E. encodeURIComponent fileName = Some E
           \<and> contentDispositionAttachment fileName =
               Some (js ''attachment; filename='' @ [0x22] @ safeAscii fileName @ [0x22]
                     @ js ''; filename*=UTF-8'' @ [0x27, 0x27] @ E)"
    by (simp add: contentDispositionAttachment_def)
next
  fix c assume "c \<in> set (safeAscii fileName)"
  then show "\<not> control_char c" "c \<noteq> 0x22" using safeAscii_clean by blast+
next
  assume "filter (\<lambda>c. c \<noteq> 0x22) (filter (\<lambda>c. \<not> control_char c) fileName) = []"
  then show "safeAscii fileName = js ''file''" by (simp add: safeAscii_def)
next
  assume "filter (\<lambda>c. c \<noteq> 0x22) (filter (\<lambda>c. \<not> control_char c) fileName) \<noteq> []"
  then show "safeAscii fileName = filter (\<lambda>c. c \<noteq> 0x22) (filter (\<lambda>c. \<not> control_char c) fileName)"
    by (simp add: safeAscii_def Let_def)
qed

text \<open>
  Claim C10 as stated fails for a name that is not well formed: on the single code unit
  \<open>0xD800\<close> no string is returned.
\<close>

theorem contentDispositionAttachment_throws:
  "contentDispositionAttachment [0xD800] = None"
  by code_simp



text \<open>
  The theorem at the name \<open>a\<close>, CR, LF, double quote, \<open>0xE9\<close>, and at the name CR, double
  quote, of which nothing is left.
\<close>

theorem contentDispositionAttachment_spec_witness:
  "contentDispositionAttachment [0x61, 0x0D, 0x0A, 0x22, 0xE9] =
     Some (js ''attachment; filename='' @ [0x22] @ [0x61, 0xE9] @ [0x22]
           @ js ''; filename*=UTF-8'' @ [0x27, 0x27] @ js ''a%0D%0A%22%C3%A9'')
   \<and> safeAscii [0x0D, 0x22] = js ''file''"
proof -
  have w: "well_formed [0x61, 0x0D, 0x0A, 0x22, 0xE9]" by code_simp
  have e: "encodeURIComponent [0x61, 0x0D, 0x0A, 0x22, 0xE9] = Some (js ''a%0D%0A%22%C3%A9'')"
    by code_simp
  have f: "filter (\<lambda>c. c \<noteq> 0x22) (filter (\<lambda>c. \<not> control_char c) [0x61, 0x0D, 0x0A, 0x22, 0xE9])
             = [0x61, 0xE9]"
    by code_simp
  have f': "filter (\<lambda>c. c \<noteq> 0x22) (filter (\<lambda>c. \<not> control_char c) [0x61, 0x0D, 0x0A, 0x22, 0xE9])
             \<noteq> []"
    unfolding f by simp
  have g: "filter (\<lambda>c. c \<noteq> 0x22) (filter (\<lambda>c. \<not> control_char c) [0x0D, 0x22]) = []"
    by code_simp
  note t1 = contentDispositionAttachment_spec [of "[0x61, 0x0D, 0x0A, 0x22, 0xE9]"]
  note t2 = contentDispositionAttachment_spec [of "[0x0D, 0x22]"]
  from t1 have "well_formed [0x61, 0x0D, 0x0A, 0x22, 0xE9] \<longrightarrow>
        (\<exists>E. encodeURIComponent [0x61, 0x0D, 0x0A, 0x22, 0xE9] = Some E
           \<and> contentDispositionAttachment [0x61, 0x0D, 0x0A, 0x22, 0xE9] =
               Some (js ''attachment; filename='' @ [0x22] @ safeAscii [0x61, 0x0D, 0x0A, 0x22, 0xE9] @ [0x22]
                     @ js ''; filename*=UTF-8'' @ [0x27, 0x27] @ E))"
    by (rule conjunct1 [OF conjunct2])
  with w obtain E where E: "encodeURIComponent [0x61, 0x0D, 0x0A, 0x22, 0xE9] = Some E"
    "contentDispositionAttachment [0x61, 0x0D, 0x0A, 0x22, 0xE9] =
               Some (js ''attachment; filename='' @ [0x22] @ safeAscii [0x61, 0x0D, 0x0A, 0x22, 0xE9] @ [0x22]
                     @ js ''; filename*=UTF-8'' @ [0x27, 0x27] @ E)"
    by blast
  from E(1) e have E': "E = js ''a%0D%0A%22%C3%A9''" by simp
  from t1 f' have s: "safeAscii [0x61, 0x0D, 0x0A, 0x22, 0xE9] = [0x61, 0xE9]"
    unfolding f by blast
  from t2 g have "safeAscii [0x0D, 0x22] = js ''file''" by blast
  with E(2) show ?thesis unfolding E' s by blast
qed

end
